theory Spec2Isabelle
  imports Main "HOL-Library.Word"
begin

section \<open>The top-of-block auction lane of blockbuster\<close>

text \<open>
  A shallow embedding of \<^verbatim>\<open>blockbuster/tob_lane.go\<close>. The lane's methods become
  functions that take the lane and return the lane they leave behind; every error return
  is a value; the one panic of the file (\<^verbatim>\<open>ProcessLane\<close>) and the nil dereference that
  \<^verbatim>\<open>VerifyTx\<close> can run into are values of \<open>outcome\<close>.
\<close>

subsection \<open>Bytes, errors, outcomes\<close>

type_synonym bytes = "8 word list"

text \<open>
  Go errors. \<open>Wrapf m e\<close> is \<^verbatim>\<open>fmt.Errorf("m: %w", e)\<close>, \<open>Errorf m\<close> an error with no cause.
  \<open>ErrTxNotFound\<close> is the sentinel of the mempool package; \<open>DuplicateError\<close> and
  \<open>CapacityError\<close> are the two insertion errors the specification names.
\<close>

datatype error =
    ErrTxNotFound
  | DuplicateError
  | CapacityError
  | Errorf string
  | Wrapf string error

text \<open>\<^verbatim>\<open>errors.Is\<close>: the target is looked for along the chain of wrapped causes.\<close>

fun errors_Is :: "error \<Rightarrow> error \<Rightarrow> bool" where
  "errors_Is (Wrapf m e) target = (Wrapf m e = target \<or> errors_Is e target)"
| "errors_Is e target = (e = target)"

datatype 'a outcome = Returns 'a | Panics string

subsection \<open>External collaborators\<close>

text \<open>
  Modelled from the spec: the declaration of \<^verbatim>\<open>mempool.AuctionBidInfo\<close> is not among the
  sources. Section 3 gives its content: the bid amount, the bidder, the ordered raw payloads
  of the bundle and a timeout.
\<close>

record AuctionBidInfo =
  Bidder :: string
  Bid :: int
  Transactions :: "bytes list"
  Timeout :: nat

text \<open>
  \<^verbatim>\<open>mempool.AuctionFactory\<close>, an interface. \<^verbatim>\<open>GetAuctionBidInfo\<close> returns a pointer and an
  error, and the lane looks at both, so the model keeps both.
\<close>

record 'tx AuctionFactory =
  GetAuctionBidInfo :: "'tx \<Rightarrow> AuctionBidInfo option \<times> error option"
  WrapBundleTransaction :: "bytes \<Rightarrow> error + 'tx"

text \<open>
  \<^verbatim>\<open>sdk.Context\<close> is a struct passed by value that refers to a store. The model keeps the
  two apart: \<open>'v\<close> holds the fields copied with the struct, \<open>'s\<close> the contents of the
  store the struct refers to. A callee that writes to the store changes \<open>'s\<close> for its
  caller as well; a context value that a callee returns is seen by the caller only if the
  caller keeps it.
\<close>

type_synonym ('v, 's) Context = "'v \<times> 's"

text \<open>
  \<^verbatim>\<open>sdk.AnteHandler\<close>: from a context, a transaction and the simulate flag to the new
  context and an error. The store of the result is the store the handler leaves behind,
  also when it fails.
\<close>

type_synonym ('v, 's, 'tx) AnteHandler =
  "('v, 's) Context \<Rightarrow> 'tx \<Rightarrow> bool \<Rightarrow> ('v, 's) Context \<times> error option"

text \<open>
  \<^verbatim>\<open>ctx.CacheContext()\<close> forks the context: the fork starts with the parent's contents, and
  writes to it stay in the fork. The function \<open>writeCache\<close> (the \<^verbatim>\<open>write\<close> of the source) that comes with the fork copies
  the fork's store into the parent.
\<close>

definition CacheContext :: "('v, 's) Context \<Rightarrow> ('v, 's) Context" where
  "CacheContext ctx = ctx"

definition writeCache :: "('v, 's) Context \<Rightarrow> 's \<Rightarrow> ('v, 's) Context" where
  "writeCache ctx cacheStore = (fst ctx, cacheStore)"

text \<open>
  \<^verbatim>\<open>sdkmempool.Mempool\<close>, an interface: the lane calls its four methods on a value it does
  not know. \<open>'m\<close> is the state of the implementation, \<open>'g\<close> the \<^verbatim>\<open>context.Context\<close> that
  \<^verbatim>\<open>Insert\<close> receives. \<^verbatim>\<open>Select\<close> returns an iterator; the lane only walks it from front to
  back, so it is the list of what it yields. The arguments of \<^verbatim>\<open>Select\<close> are left out:
  \<^verbatim>\<open>PrepareLane\<close> passes its context and nil.
\<close>

record ('g, 'm, 'tx) Mempool =
  mp_Insert :: "'g \<Rightarrow> 'tx \<Rightarrow> 'm \<Rightarrow> error option \<times> 'm"
  mp_Select :: "'m \<Rightarrow> 'tx list"
  mp_CountTx :: "'m \<Rightarrow> nat"
  mp_Remove :: "'tx \<Rightarrow> 'm \<Rightarrow> error option \<times> 'm"

subsection \<open>The lane\<close>

text \<open>
  \<^verbatim>\<open>type TOBLane struct\<close>. The logger has no effect on any result and is left out.
  \<open>index_impl\<close> is the method table of the interface value \<^verbatim>\<open>index\<close>, \<open>index\<close> its state.
  \<open>hashHex\<close> stands for \<^verbatim>\<open>hex.EncodeToString(sha256.Sum256(bz))\<close>, which the standard
  library provides.
\<close>

record ('g, 'm, 'tx, 'v, 's) TOBLane =
  index_impl :: "('g, 'm, 'tx) Mempool"
  index :: 'm
  af :: "'tx AuctionFactory"
  txEncoder :: "'tx \<Rightarrow> error + bytes"
  txDecoder :: "bytes \<Rightarrow> error + 'tx"
  anteHandler :: "('v, 's, 'tx) AnteHandler option"
  hashHex :: "bytes \<Rightarrow> string"
  txIndex :: "string set"

definition Name :: "('g, 'm, 'tx, 'v, 's) TOBLane \<Rightarrow> string" where
  "Name l = ''tob''"

definition Match :: "('g, 'm, 'tx, 'v, 's) TOBLane \<Rightarrow> 'tx \<Rightarrow> bool" where
  "Match l tx = (case GetAuctionBidInfo (af l) tx of (bidInfo, err) \<Rightarrow> bidInfo \<noteq> None \<and> err = None)"

definition getTxHashStr :: "('g, 'm, 'tx, 'v, 's) TOBLane \<Rightarrow> 'tx \<Rightarrow> error + string" where
  "getTxHashStr l tx =
     (case txEncoder l tx of
        Inl err \<Rightarrow> Inl (Wrapf ''failed to encode transaction'' err)
      | Inr txBz \<Rightarrow> Inr (hashHex l txBz))"

definition Contains :: "('g, 'm, 'tx, 'v, 's) TOBLane \<Rightarrow> 'tx \<Rightarrow> bool \<times> error option" where
  "Contains l tx =
     (case getTxHashStr l tx of
        Inl err \<Rightarrow> (False, Some (Wrapf ''failed to get tx hash string'' err))
      | Inr txHashStr \<Rightarrow> (txHashStr \<in> txIndex l, None))"

definition verifyTx ::
  "('g, 'm, 'tx, 'v, 's) TOBLane \<Rightarrow> ('v, 's) Context \<Rightarrow> 'tx \<Rightarrow> ('v, 's) Context \<times> error option" where
  "verifyTx l ctx tx =
     (case anteHandler l of
        Some h \<Rightarrow> h ctx tx False
      | None \<Rightarrow> (ctx, None))"

text \<open>
  \<^verbatim>\<open>prepareProposalVerifyTx\<close> drops the context that \<^verbatim>\<open>verifyTx\<close> returns; what the handler
  wrote to the store of \<open>ctx\<close> stays. The result is that store and the encoded bytes.
\<close>

definition prepareProposalVerifyTx ::
  "('g, 'm, 'tx, 'v, 's) TOBLane \<Rightarrow> ('v, 's) Context \<Rightarrow> 'tx \<Rightarrow> 's \<times> (error + bytes)" where
  "prepareProposalVerifyTx l ctx tx =
     (case txEncoder l tx of
        Inl err \<Rightarrow> (snd ctx, Inl err)
      | Inr txBz \<Rightarrow>
          (case verifyTx l ctx tx of
             (newCtx, Some err) \<Rightarrow> (snd newCtx, Inl err)
           | (newCtx, None) \<Rightarrow> (snd newCtx, Inr txBz)))"

definition processProposalVerifyTx ::
  "('g, 'm, 'tx, 'v, 's) TOBLane \<Rightarrow> ('v, 's) Context \<Rightarrow> bytes \<Rightarrow> 's \<times> (error + 'tx)" where
  "processProposalVerifyTx l ctx txBz =
     (case txDecoder l txBz of
        Inl err \<Rightarrow> (snd ctx, Inl err)
      | Inr tx \<Rightarrow>
          (case verifyTx l ctx tx of
             (newCtx, Some err) \<Rightarrow> (snd newCtx, Inl err)
           | (newCtx, None) \<Rightarrow> (snd newCtx, Inr tx)))"

subsection \<open>VerifyTx\<close>

text \<open>
  The loop over \<^verbatim>\<open>bidInfo.Transactions\<close> in \<^verbatim>\<open>VerifyTx\<close>. The context is threaded from one
  bundled transaction to the next. The result is the error (if any) and the store left
  behind: \<^verbatim>\<open>VerifyTx\<close> runs the handler on the caller's own context.
\<close>

fun VerifyTx_bundle ::
  "('g, 'm, 'tx, 'v, 's) TOBLane \<Rightarrow> ('v, 's) Context \<Rightarrow> bytes list \<Rightarrow> error option \<times> 's" where
  "VerifyTx_bundle l ctx [] = (None, snd ctx)"
| "VerifyTx_bundle l ctx (tx # rest) =
     (case WrapBundleTransaction (af l) tx of
        Inl err \<Rightarrow> (Some (Wrapf ''invalid bid tx; failed to decode bundled tx'' err), snd ctx)
      | Inr bundledTx \<Rightarrow>
          (case GetAuctionBidInfo (af l) bundledTx of
             (Some bidInfo, _) \<Rightarrow>
               (Some (Errorf ''invalid bid tx; bundled tx cannot be a bid tx''), snd ctx)
           | (None, _) \<Rightarrow>
               (case verifyTx l ctx bundledTx of
                  (ctx', Some err) \<Rightarrow>
                    (Some (Wrapf ''invalid bid tx; failed to execute bundled transaction'' err),
                     snd ctx')
                | (ctx', None) \<Rightarrow> VerifyTx_bundle l ctx' rest)))"

text \<open>
  \<^verbatim>\<open>VerifyTx\<close>. When the factory returns neither bid info nor an error, the range over
  \<^verbatim>\<open>bidInfo.Transactions\<close> dereferences nil.
\<close>

definition VerifyTx ::
  "('g, 'm, 'tx, 'v, 's) TOBLane \<Rightarrow> ('v, 's) Context \<Rightarrow> 'tx \<Rightarrow> error option outcome \<times> 's" where
  "VerifyTx l ctx bidTx =
     (case GetAuctionBidInfo (af l) bidTx of
        (bidInfo, Some err) \<Rightarrow>
          (Returns (Some (Wrapf ''failed to get auction bid info'' err)), snd ctx)
      | (bidInfo, None) \<Rightarrow>
          (case verifyTx l ctx bidTx of
             (ctx', Some err) \<Rightarrow>
               (Returns (Some (Wrapf ''invalid bid tx; failed to execute ante handler'' err)),
                snd ctx')
           | (ctx', None) \<Rightarrow>
               (case bidInfo of
                  None \<Rightarrow> (Panics ''nil pointer dereference'', snd ctx')
                | Some info \<Rightarrow>
                    (case VerifyTx_bundle l ctx' (Transactions info) of
                       (err, store') \<Rightarrow> (Returns err, store')))))"

subsection \<open>Insert, Select, CountTx, Remove\<close>

definition Insert ::
  "('g, 'm, 'tx, 'v, 's) TOBLane \<Rightarrow> 'g \<Rightarrow> 'tx \<Rightarrow> error option \<times> ('g, 'm, 'tx, 'v, 's) TOBLane" where
  "Insert l goCtx tx =
     (case getTxHashStr l tx of
        Inl err \<Rightarrow> (Some err, l)
      | Inr txHashStr \<Rightarrow>
          (case mp_Insert (index_impl l) goCtx tx (index l) of
             (Some err, m') \<Rightarrow>
               (Some (Wrapf ''failed to insert tx into auction index'' err), l\<lparr>index := m'\<rparr>)
           | (None, m') \<Rightarrow>
               (None, l\<lparr>index := m', txIndex := insert txHashStr (txIndex l)\<rparr>)))"

definition Select :: "('g, 'm, 'tx, 'v, 's) TOBLane \<Rightarrow> 'tx list" where
  "Select l = mp_Select (index_impl l) (index l)"

definition CountTx :: "('g, 'm, 'tx, 'v, 's) TOBLane \<Rightarrow> nat" where
  "CountTx l = mp_CountTx (index_impl l) (index l)"

definition Remove ::
  "('g, 'm, 'tx, 'v, 's) TOBLane \<Rightarrow> 'tx \<Rightarrow> error option \<times> ('g, 'm, 'tx, 'v, 's) TOBLane" where
  "Remove l tx =
     (case getTxHashStr l tx of
        Inl err \<Rightarrow> (Some (Wrapf ''failed to get tx hash string'' err), l)
      | Inr txHashStr \<Rightarrow>
          (case mp_Remove (index_impl l) tx (index l) of
             (Some err, m') \<Rightarrow>
               (if \<not> errors_Is err ErrTxNotFound
                then (Some (Wrapf ''failed to remove invalid transaction from the mempool'' err),
                      l\<lparr>index := m'\<rparr>)
                else (None, l\<lparr>index := m', txIndex := txIndex l - {txHashStr}\<rparr>))
           | (None, m') \<Rightarrow>
               (None, l\<lparr>index := m', txIndex := txIndex l - {txHashStr}\<rparr>)))"

subsection \<open>PrepareLane\<close>

text \<open>
  The inner loop of \<^verbatim>\<open>PrepareLane\<close> over the bundled payloads of one bid. Every element is
  wrapped, encoded and run through the handler under the fork. The result is \<open>None\<close> when
  an element fails (the Go code marks the bid and continues with the next candidate), and
  otherwise the encoded elements in bundle order with the store of the fork.
\<close>

fun PrepareLane_bundle ::
  "('g, 'm, 'tx, 'v, 's) TOBLane \<Rightarrow> ('v, 's) Context \<Rightarrow> bytes list \<Rightarrow> (bytes list \<times> 's) option" where
  "PrepareLane_bundle l cacheCtx [] = Some ([], snd cacheCtx)"
| "PrepareLane_bundle l cacheCtx (rawRefTx # rest) =
     (case WrapBundleTransaction (af l) rawRefTx of
        Inl err \<Rightarrow> None
      | Inr refTx \<Rightarrow>
          (case prepareProposalVerifyTx l cacheCtx refTx of
             (cacheStore, Inl err) \<Rightarrow> None
           | (cacheStore, Inr txBz) \<Rightarrow>
               (case PrepareLane_bundle l (fst cacheCtx, cacheStore) rest of
                  None \<Rightarrow> None
                | Some (sdkTxBytes, cacheStore') \<Rightarrow> Some (txBz # sdkTxBytes, cacheStore'))))"

text \<open>
  What one pass through the body of \<^verbatim>\<open>selectBidTxLoop\<close> does with the candidate
  \<^verbatim>\<open>tmpBidTx\<close>: return from \<^verbatim>\<open>PrepareLane\<close> with an error, continue without marking,
  mark the candidate and continue, or select it, commit the fork and break.
\<close>

datatype 's step =
    ReturnErr error
  | Skip
  | MarkRemove
  | SelectBid "bytes list" 's

text \<open>
  The body of the loop. \<open>selectedTxs\<close> is the Go map from hash to bytes, as an association
  list. The size test compares the length of the encoded bid alone with \<open>maxTxBytes\<close>.
\<close>

definition selectBidTx ::
  "('g, 'm, 'tx, 'v, 's) TOBLane \<Rightarrow> ('v, 's) Context \<Rightarrow> int \<Rightarrow> (string \<times> bytes) list \<Rightarrow> 'tx \<Rightarrow> 's step" where
  "selectBidTx l ctx maxTxBytes selectedTxs tmpBidTx =
     (let cacheCtx = CacheContext ctx in
      case getTxHashStr l tmpBidTx of
        Inl err \<Rightarrow> ReturnErr (Wrapf ''failed to get bid tx hash'' err)
      | Inr txHash \<Rightarrow>
          if map_of selectedTxs txHash \<noteq> None then Skip
          else
            (case prepareProposalVerifyTx l cacheCtx tmpBidTx of
               (cacheStore, Inl err) \<Rightarrow> MarkRemove
             | (cacheStore, Inr bidTxBz) \<Rightarrow>
                 (let bidTxSize = int (length bidTxBz) in
                  if bidTxSize \<le> maxTxBytes then
                    (case GetAuctionBidInfo (af l) tmpBidTx of
                       (Some bidInfo, None) \<Rightarrow>
                         (case PrepareLane_bundle l (fst cacheCtx, cacheStore) (Transactions bidInfo) of
                            None \<Rightarrow> MarkRemove
                          | Some (sdkTxBytes, cacheStore') \<Rightarrow>
                              SelectBid (bidTxBz # sdkTxBytes) cacheStore')
                     | _ \<Rightarrow> MarkRemove)
                  else MarkRemove)))"

text \<open>
  \<^verbatim>\<open>selectBidTxLoop\<close> over what the iterator yields. \<open>txsToRemove\<close> is the Go map used as a
  set, kept as a list without repetition. The result is the error of an early return, or the
  selected bytes, the store of the caller's context after the loop and the marked
  transactions.
\<close>

fun selectBidTxLoop ::
  "('g, 'm, 'tx, 'v, 's) TOBLane \<Rightarrow> ('v, 's) Context \<Rightarrow> int \<Rightarrow> (string \<times> bytes) list \<Rightarrow>
   'tx list \<Rightarrow> 'tx list \<Rightarrow> error + (bytes list \<times> 's \<times> 'tx list)" where
  "selectBidTxLoop l ctx maxTxBytes selectedTxs [] txsToRemove = Inr ([], snd ctx, txsToRemove)"
| "selectBidTxLoop l ctx maxTxBytes selectedTxs (tmpBidTx # rest) txsToRemove =
     (case selectBidTx l ctx maxTxBytes selectedTxs tmpBidTx of
        ReturnErr err \<Rightarrow> Inl err
      | Skip \<Rightarrow> selectBidTxLoop l ctx maxTxBytes selectedTxs rest txsToRemove
      | MarkRemove \<Rightarrow>
          selectBidTxLoop l ctx maxTxBytes selectedTxs rest (List.insert tmpBidTx txsToRemove)
      | SelectBid tmpSelectedTxs cacheStore \<Rightarrow>
          Inr (tmpSelectedTxs, snd (writeCache ctx cacheStore), txsToRemove))"

text \<open>The loop that removes the marked transactions, stopping at the first error.\<close>

fun removeTxs ::
  "('g, 'm, 'tx, 'v, 's) TOBLane \<Rightarrow> 'tx list \<Rightarrow> error option \<times> ('g, 'm, 'tx, 'v, 's) TOBLane" where
  "removeTxs l [] = (None, l)"
| "removeTxs l (tx # rest) =
     (case Remove l tx of
        (Some err, l') \<Rightarrow> (Some err, l')
      | (None, l') \<Rightarrow> removeTxs l' rest)"

text \<open>
  \<^verbatim>\<open>PrepareLane\<close>. Go ranges over the map \<^verbatim>\<open>txsToRemove\<close> in an order it does not fix;
  \<open>rangeOrder\<close> is that order, a rearrangement of the marked transactions. \<open>totalTxBytes\<close>
  is computed as in the source, which never reads it. The result is what the Go function
  returns, the store of the caller's context and the lane after the call.
\<close>

definition PrepareLane ::
  "('tx list \<Rightarrow> 'tx list) \<Rightarrow> ('g, 'm, 'tx, 'v, 's) TOBLane \<Rightarrow> ('v, 's) Context \<Rightarrow> int \<Rightarrow>
   (string \<times> bytes) list \<Rightarrow> (error + bytes list) \<times> 's \<times> ('g, 'm, 'tx, 'v, 's) TOBLane" where
  "PrepareLane rangeOrder l ctx maxTxBytes selectedTxs =
     (let totalTxBytes = (\<Sum>(h, tx) \<leftarrow> selectedTxs. int (length tx));
          bidTxIterator = mp_Select (index_impl l) (index l)
      in case selectBidTxLoop l ctx maxTxBytes selectedTxs bidTxIterator [] of
           Inl err \<Rightarrow> (Inl err, snd ctx, l)
         | Inr (tmpSelectedTxs, store', txsToRemove) \<Rightarrow>
             (case removeTxs l (rangeOrder txsToRemove) of
                (Some err, l') \<Rightarrow> (Inl err, store', l')
              | (None, l') \<Rightarrow> (Inr tmpSelectedTxs, store', l')))"

subsection \<open>ProcessLane\<close>

text \<open>\<^verbatim>\<open>ProcessLane\<close> is \<^verbatim>\<open>panic("not implemented")\<close>.\<close>

definition ProcessLane ::
  "('g, 'm, 'tx, 'v, 's) TOBLane \<Rightarrow> ('v, 's) Context \<Rightarrow> bytes list \<Rightarrow> error option outcome" where
  "ProcessLane l ctx txs = Panics ''not implemented''"

subsection \<open>The priority mempool\<close>

text \<open>
  Modelled from the spec: the priority mempool (\<^verbatim>\<open>mempool.NewPriorityMempool\<close>, package
  \<^verbatim>\<open>mempool\<close> of this repository) is not among the sources. The specification describes
  it as a container keyed by transaction identity and ordered by an application-supplied
  priority, highest first, with ties broken by insertion order. Inserting fails with
  \<open>DuplicateError\<close> when the identity is present and with \<open>CapacityError\<close> when the pool is
  at its configured maximum; removing an absent transaction gives the not-found error.
  \<open>ident\<close> is the identity of a transaction; \<open>priority\<close> is the configured \<^verbatim>\<open>TxPriority\<close>,
  which the pool asks once, when the transaction is inserted, with the context of that
  call. The state is the list of the pooled transactions in iteration order, each with the
  priority it was inserted with.
\<close>

fun pm_place :: "int \<Rightarrow> 'tx \<Rightarrow> (int \<times> 'tx) list \<Rightarrow> (int \<times> 'tx) list" where
  "pm_place p tx [] = [(p, tx)]"
| "pm_place p tx (y # ys) =
     (if fst y < p then (p, tx) # y # ys else y # pm_place p tx ys)"

definition pm_Insert ::
  "('tx \<Rightarrow> 'k) \<Rightarrow> ('g \<Rightarrow> 'tx \<Rightarrow> int) \<Rightarrow> int \<Rightarrow> 'g \<Rightarrow> 'tx \<Rightarrow> (int \<times> 'tx) list \<Rightarrow>
   error option \<times> (int \<times> 'tx) list" where
  "pm_Insert ident priority maxTx goCtx tx pool =
     (if ident tx \<in> ident ` snd ` set pool then (Some DuplicateError, pool)
      else if maxTx \<le> int (length pool) then (Some CapacityError, pool)
      else (None, pm_place (priority goCtx tx) tx pool))"

definition pm_Remove ::
  "('tx \<Rightarrow> 'k) \<Rightarrow> 'tx \<Rightarrow> (int \<times> 'tx) list \<Rightarrow> error option \<times> (int \<times> 'tx) list" where
  "pm_Remove ident tx pool =
     (if ident tx \<in> ident ` snd ` set pool
      then (None, filter (\<lambda>y. ident (snd y) \<noteq> ident tx) pool)
      else (Some ErrTxNotFound, pool))"

definition PriorityMempool ::
  "('tx \<Rightarrow> 'k) \<Rightarrow> ('g \<Rightarrow> 'tx \<Rightarrow> int) \<Rightarrow> int \<Rightarrow> ('g, (int \<times> 'tx) list, 'tx) Mempool" where
  "PriorityMempool ident priority maxTx =
     \<lparr> mp_Insert = pm_Insert ident priority maxTx,
       mp_Select = map snd,
       mp_CountTx = length,
       mp_Remove = pm_Remove ident \<rparr>"

text \<open>
  The identity of a transaction is its content hash (section 3 of the specification): the
  hash of its encoding, and nothing when it has no encoding.
\<close>

definition contentHash :: "('tx \<Rightarrow> error + bytes) \<Rightarrow> (bytes \<Rightarrow> string) \<Rightarrow> 'tx \<Rightarrow> string option" where
  "contentHash enc hh tx = (case enc tx of Inl err \<Rightarrow> None | Inr txBz \<Rightarrow> Some (hh txBz))"

text \<open>The bid amount the factory reports for a transaction (0 when it reports no bid).\<close>

definition bidAmount :: "'tx AuctionFactory \<Rightarrow> 'tx \<Rightarrow> int" where
  "bidAmount f tx = (case GetAuctionBidInfo f tx of (Some info, _) \<Rightarrow> Bid info | (None, _) \<Rightarrow> 0)"

text \<open>
  \<^verbatim>\<open>NewTOBLane\<close>: an empty pool and an empty membership index. The pool is the priority
  mempool above, configured as in the source with \<^verbatim>\<open>mempool.NewDefaultTxPriority()\<close> and
  \<open>maxTx\<close>, and with nothing of the auction factory. What \<^verbatim>\<open>NewDefaultTxPriority()\<close> returns
  is not among the sources: it is the parameter \<open>defaultTxPriority\<close>. The pool of the
  specification is keyed by the identity of a transaction, which is its content hash; the
  model computes it with the encoder and the hash of the lane.
\<close>

definition NewTOBLane ::
  "(bytes \<Rightarrow> string) \<Rightarrow> ('g \<Rightarrow> 'tx \<Rightarrow> int) \<Rightarrow> (bytes \<Rightarrow> error + 'tx) \<Rightarrow> ('tx \<Rightarrow> error + bytes) \<Rightarrow>
   int \<Rightarrow> 'tx AuctionFactory \<Rightarrow> ('v, 's, 'tx) AnteHandler option \<Rightarrow>
   ('g, (int \<times> 'tx) list, 'tx, 'v, 's) TOBLane" where
  "NewTOBLane hh defaultTxPriority txDec txEnc maxTx f ante =
     \<lparr> index_impl = PriorityMempool (contentHash txEnc hh) defaultTxPriority maxTx,
       index = [],
       af = f,
       txEncoder = txEnc,
       txDecoder = txDec,
       anteHandler = ante,
       hashHex = hh,
       txIndex = {} \<rparr>"

text \<open>Sequences of \<^verbatim>\<open>Insert\<close> and \<^verbatim>\<open>Remove\<close> calls on a lane, whatever each call returns.\<close>

datatype ('g, 'tx) lane_op = DoInsert 'g 'tx | DoRemove 'tx

fun runOps ::
  "('g, 'm, 'tx, 'v, 's) TOBLane \<Rightarrow> ('g, 'tx) lane_op list \<Rightarrow> ('g, 'm, 'tx, 'v, 's) TOBLane" where
  "runOps l [] = l"
| "runOps l (DoInsert goCtx tx # ops) = runOps (snd (Insert l goCtx tx)) ops"
| "runOps l (DoRemove tx # ops) = runOps (snd (Remove l tx)) ops"

subsection \<open>A small chain for concrete runs\<close>

text \<open>
  Transactions for concrete inputs: a tag, the length of the encoding, the bid amount (none
  for a transaction that is no bid), the bundled payloads, and whether the validation hook
  accepts the transaction. \<open>NoEncoding\<close> is a transaction the encoder fails on.
\<close>

datatype toy_tx =
    Toy (tag: "8 word") (enc_len: nat) (toy_bid: "int option") (toy_bundle: "bytes list")
      (accepted: bool)
  | NoEncoding

definition txX :: toy_tx where "txX = Toy 11 5 None [] True"
definition txY :: toy_tx where "txY = Toy 12 5 None [] True"
definition txZ :: toy_tx where "txZ = Toy 13 5 None [] True"
definition txW :: toy_tx where "txW = Toy 14 5 None [] False"
definition bidA :: toy_tx where "bidA = Toy 1 50 (Some 100) [[11], [12]] True"
definition bidB :: toy_tx where "bidB = Toy 2 30 (Some 50) [[13]] True"
definition bidC :: toy_tx where "bidC = Toy 3 20 (Some 70) [[14]] True"
definition bidN :: toy_tx where "bidN = Toy 4 10 (Some 200) [[2]] True"
definition bidR :: toy_tx where "bidR = Toy 5 10 (Some 300) [] False"

fun toyEncoder :: "toy_tx \<Rightarrow> error + bytes" where
  "toyEncoder (Toy t n b ps ok) = Inr (replicate n t)"
| "toyEncoder NoEncoding = Inl (Errorf ''cannot encode'')"

fun toyBidInfo :: "toy_tx \<Rightarrow> AuctionBidInfo option \<times> error option" where
  "toyBidInfo (Toy t n (Some b) ps ok) =
     (Some \<lparr> Bidder = ''bidder'', Bid = b, Transactions = ps, Timeout = 0 \<rparr>, None)"
| "toyBidInfo (Toy t n None ps ok) = (None, None)"
| "toyBidInfo NoEncoding = (None, Some (Errorf ''no bid info''))"

definition toyWrap :: "bytes \<Rightarrow> error + toy_tx" where
  "toyWrap payload =
     (if payload = [11] then Inr txX
      else if payload = [12] then Inr txY
      else if payload = [13] then Inr txZ
      else if payload = [14] then Inr txW
      else if payload = [2] then Inr bidB
      else Inl (Errorf ''malformed payload''))"

definition toyFactory :: "toy_tx AuctionFactory" where
  "toyFactory = \<lparr> GetAuctionBidInfo = toyBidInfo, WrapBundleTransaction = toyWrap \<rparr>"

text \<open>
  The store of the small chain is the list of the tags of the transactions run against it;
  the hook records the tag whether it accepts the transaction or not.
\<close>

fun toyAnte :: "(unit, bytes, toy_tx) AnteHandler" where
  "toyAnte (v, s) (Toy t n b ps ok) simulate =
     ((v, s @ [t]), if ok then None else Some (Errorf ''rejected''))"
| "toyAnte (v, s) NoEncoding simulate = ((v, s), Some (Errorf ''rejected''))"

definition toyHash :: "bytes \<Rightarrow> string" where
  "toyHash bz =
     (if 1 \<in> set bz then ''hA'' else if 2 \<in> set bz then ''hB'' else if 3 \<in> set bz then ''hC''
      else if 4 \<in> set bz then ''hN'' else if 5 \<in> set bz then ''hR'' else ''hx'')"

definition toyDecoder :: "bytes \<Rightarrow> error + toy_tx" where
  "toyDecoder bz =
     (if bz = replicate 5 11 then Inr txX
      else if bz = replicate 30 2 then Inr bidB
      else Inl (Errorf ''cannot decode''))"

text \<open>
  The context of an \<^verbatim>\<open>Insert\<close> on the small chain is a number, and the default priority of
  the small chain is that number.
\<close>

definition toyPriority :: "int \<Rightarrow> toy_tx \<Rightarrow> int" where
  "toyPriority goCtx tx = goCtx"

definition toyLane :: "(int, (int \<times> toy_tx) list, toy_tx, unit, bytes) TOBLane" where
  "toyLane = NewTOBLane toyHash toyPriority toyDecoder toyEncoder 10 toyFactory (Some toyAnte)"

text \<open>The lane after inserting the given transactions, each with the given context.\<close>

definition laneWith ::
  "(int \<times> toy_tx) list \<Rightarrow> (int, (int \<times> toy_tx) list, toy_tx, unit, bytes) TOBLane" where
  "laneWith gts = runOps toyLane (map (\<lambda>(g, t). DoInsert g t) gts)"

text \<open>
  The lane after inserting the given transactions, each with its bid amount as context, so
  that this pool happens to iterate by bid amount.
\<close>

definition laneOf ::
  "toy_tx list \<Rightarrow> (int, (int \<times> toy_tx) list, toy_tx, unit, bytes) TOBLane" where
  "laneOf txs = laneWith (map (\<lambda>t. (bidAmount toyFactory t, t)) txs)"

text \<open>A lane that holds \<open>bidC\<close> and whose pool fails every removal with an error of its own.\<close>

definition brokenLane :: "(int, (int \<times> toy_tx) list, toy_tx, unit, bytes) TOBLane" where
  "brokenLane =
     toyLane\<lparr>index_impl := (index_impl toyLane)\<lparr>mp_Remove := \<lambda>tx m. (Some (Errorf ''no signer''), m)\<rparr>,
              index := [(70, bidC)], txIndex := {''hC''}\<rparr>"

subsection \<open>Predicates of the properties\<close>

text \<open>
  A pool entry is a candidate of a call when it has a hash and the hash is not among the
  transactions selected before the call.
\<close>

definition candidate :: "('g, 'm, 'tx, 'v, 's) TOBLane \<Rightarrow> (string \<times> bytes) list \<Rightarrow> 'tx \<Rightarrow> bool" where
  "candidate l selectedTxs t =
     (case getTxHashStr l t of Inl err \<Rightarrow> False | Inr h \<Rightarrow> map_of selectedTxs h = None)"

text \<open>
  Full validation of a bid on a fork of \<open>ctx\<close>: the bid has an encoding and the hook accepts
  it, the factory reports bid info and no error, and every bundled payload, in order and on
  the same fork, wraps into a transaction that has an encoding and that the hook accepts.
\<close>

definition fullyValid :: "('g, 'm, 'tx, 'v, 's) TOBLane \<Rightarrow> ('v, 's) Context \<Rightarrow> 'tx \<Rightarrow> bool" where
  "fullyValid l ctx t =
     (case prepareProposalVerifyTx l (CacheContext ctx) t of
        (cacheStore, Inl err) \<Rightarrow> False
      | (cacheStore, Inr bidTxBz) \<Rightarrow>
          (case GetAuctionBidInfo (af l) t of
             (Some info, None) \<Rightarrow>
               PrepareLane_bundle l (fst ctx, cacheStore) (Transactions info) \<noteq> None
           | _ \<Rightarrow> False))"

text \<open>The encoded bid is no longer than the byte budget of the call.\<close>

definition fitsBudget :: "('g, 'm, 'tx, 'v, 's) TOBLane \<Rightarrow> int \<Rightarrow> 'tx \<Rightarrow> bool" where
  "fitsBudget l maxTxBytes t =
     (case txEncoder l t of Inl err \<Rightarrow> False | Inr bz \<Rightarrow> int (length bz) \<le> maxTxBytes)"

text \<open>
  The invariant of a lane over the priority mempool with identity \<open>ident\<close>: the pooled
  transactions have pairwise different identities, each has one, and the membership index
  holds exactly these identities.
\<close>

definition laneInvariant ::
  "('tx \<Rightarrow> string option) \<Rightarrow> ('g, (int \<times> 'tx) list, 'tx, 'v, 's) TOBLane \<Rightarrow> bool" where
  "laneInvariant ident l =
     (distinct (map (ident \<circ> snd) (index l)) \<and>
      (\<forall>y \<in> set (index l). ident (snd y) \<noteq> None) \<and>
      txIndex l = {h. \<exists>y \<in> set (index l). ident (snd y) = Some h})"

section \<open>Properties\<close>

lemmas lane_defs = PrepareLane_def selectBidTx_def getTxHashStr_def prepareProposalVerifyTx_def
  verifyTx_def Remove_def Insert_def Contains_def PriorityMempool_def pm_Insert_def pm_Remove_def
  CacheContext_def writeCache_def NewTOBLane_def contentHash_def bidAmount_def Select_def
  CountTx_def VerifyTx_def Match_def

lemmas toy_defs = toyLane_def laneOf_def laneWith_def toyFactory_def toyWrap_def toyHash_def
  toyDecoder_def toyPriority_def txX_def txY_def txZ_def txW_def bidA_def bidB_def bidC_def
  bidN_def bidR_def

subsection \<open>One pass through the loop body\<close>

lemma step_SelectBid_iff:
  "(\<exists>sel cs. selectBidTx l ctx maxTxBytes selectedTxs t = SelectBid sel cs) \<longleftrightarrow>
     candidate l selectedTxs t \<and> fullyValid l ctx t \<and> fitsBudget l maxTxBytes t"
  by (auto simp: selectBidTx_def candidate_def fullyValid_def fitsBudget_def Let_def
        getTxHashStr_def prepareProposalVerifyTx_def CacheContext_def
      split: sum.splits if_splits prod.splits option.splits)

lemma step_MarkRemove_iff:
  "selectBidTx l ctx maxTxBytes selectedTxs t = MarkRemove \<longleftrightarrow>
     candidate l selectedTxs t \<and> \<not> (fullyValid l ctx t \<and> fitsBudget l maxTxBytes t)"
  by (auto simp: selectBidTx_def candidate_def fullyValid_def fitsBudget_def Let_def
        getTxHashStr_def prepareProposalVerifyTx_def CacheContext_def
      split: sum.splits if_splits prod.splits option.splits)

lemma step_Skip_iff:
  "selectBidTx l ctx maxTxBytes selectedTxs t = Skip \<longleftrightarrow>
     (\<exists>h. getTxHashStr l t = Inr h \<and> map_of selectedTxs h \<noteq> None)"
  by (auto simp: selectBidTx_def Let_def
      split: sum.splits if_splits prod.splits option.splits)

lemma step_ReturnErr_iff:
  "(\<exists>e. selectBidTx l ctx maxTxBytes selectedTxs t = ReturnErr e) \<longleftrightarrow> isl (txEncoder l t)"
  by (auto simp: selectBidTx_def Let_def getTxHashStr_def
      split: sum.splits if_splits prod.splits option.splits)


lemma PrepareLane_unfold:
  "PrepareLane rangeOrder l ctx maxTxBytes selectedTxs =
     (case selectBidTxLoop l ctx maxTxBytes selectedTxs (Select l) [] of
        Inl err \<Rightarrow> (Inl err, snd ctx, l)
      | Inr (tmpSelectedTxs, store', txsToRemove) \<Rightarrow>
          (case removeTxs l (rangeOrder txsToRemove) of
             (Some err, l') \<Rightarrow> (Inl err, store', l')
           | (None, l') \<Rightarrow> (Inr tmpSelectedTxs, store', l')))"
  by (simp add: PrepareLane_def Select_def Let_def)

subsection \<open>Where the scan stops\<close>


lemma set_fold_insert: "set (fold List.insert ys rm) = set ys \<union> set rm"
  by (induction ys arbitrary: rm) auto

lemma distinct_fold_insert: "distinct rm \<Longrightarrow> distinct (fold List.insert ys rm)"
  by (induction ys arbitrary: rm) auto

lemma loop_append:
  "\<forall>u\<in>set pre. selectBidTx l ctx b sT u = Skip \<or> selectBidTx l ctx b sT u = MarkRemove \<Longrightarrow>
   selectBidTxLoop l ctx b sT (pre @ rest) rm =
   selectBidTxLoop l ctx b sT rest
     (fold List.insert (filter (\<lambda>u. selectBidTx l ctx b sT u = MarkRemove) pre) rm)"
proof (induction pre arbitrary: rm)
  case Nil
  then show ?case by simp
next
  case (Cons a pre)
  then show ?case by (cases "selectBidTx l ctx b sT a") simp_all
qed

lemma loop_Inl_if:
  "\<forall>u\<in>set pre. \<forall>sel cs. selectBidTx l ctx b sT u \<noteq> SelectBid sel cs \<Longrightarrow>
   selectBidTx l ctx b sT t = ReturnErr e \<Longrightarrow>
   isl (selectBidTxLoop l ctx b sT (pre @ t # post) rm)"
proof (induction pre arbitrary: rm)
  case Nil
  then show ?case by simp
next
  case (Cons a pre)
  then show ?case by (cases "selectBidTx l ctx b sT a") simp_all
qed

lemma loop_cases:
  fixes l ctx b sT xs
  defines "step \<equiv> selectBidTx l ctx b sT"
  defines "cont \<equiv> \<lambda>u. step u = Skip \<or> step u = MarkRemove"
  obtains
    (none) "\<forall>u\<in>set xs. cont u"
           "\<And>rm. selectBidTxLoop l ctx b sT xs rm =
              Inr ([], snd ctx, fold List.insert (filter (\<lambda>u. step u = MarkRemove) xs) rm)"
  | (err) pre t post e where "xs = pre @ t # post" "\<forall>u\<in>set pre. cont u" "step t = ReturnErr e"
           "\<And>rm. selectBidTxLoop l ctx b sT xs rm = Inl e"
  | (win) pre w post sel cs where "xs = pre @ w # post" "\<forall>u\<in>set pre. cont u"
           "step w = SelectBid sel cs"
           "\<And>rm. selectBidTxLoop l ctx b sT xs rm =
              Inr (sel, cs, fold List.insert (filter (\<lambda>u. step u = MarkRemove) pre) rm)"
proof -
  let ?pre = "takeWhile cont xs" and ?rest = "dropWhile cont xs"
  have xs: "xs = ?pre @ ?rest" by simp
  have pre: "\<forall>u\<in>set ?pre. cont u" by (auto dest: set_takeWhileD)
  have eq: "selectBidTxLoop l ctx b sT xs rm =
      selectBidTxLoop l ctx b sT ?rest (fold List.insert (filter (\<lambda>u. step u = MarkRemove) ?pre) rm)" for rm
    using loop_append[of ?pre l ctx b sT ?rest rm] pre unfolding cont_def step_def by simp
  show thesis
  proof (cases ?rest)
    case Nil
    then have all: "\<forall>u\<in>set xs. cont u" by simp
    then have "?pre = xs" by simp
    with eq Nil have "\<And>rm. selectBidTxLoop l ctx b sT xs rm =
              Inr ([], snd ctx, fold List.insert (filter (\<lambda>u. step u = MarkRemove) xs) rm)"
      by simp
    with all show ?thesis by (rule none)
  next
    case (Cons t post)
    then have nt: "\<not> cont t" by (metis hd_dropWhile list.sel(1) list.distinct(1))
    have xs': "xs = ?pre @ t # post" using xs Cons by simp
    show ?thesis
    proof (cases "step t")
      case (ReturnErr e)
      then have "\<And>rm. selectBidTxLoop l ctx b sT xs rm = Inl e"
        using eq Cons by (simp add: step_def)
      with xs' pre ReturnErr show ?thesis by (rule err)
    next
      case Skip
      with nt show ?thesis by (simp add: cont_def)
    next
      case MarkRemove
      with nt show ?thesis by (simp add: cont_def)
    next
      case (SelectBid sel cs)
      then have "\<And>rm. selectBidTxLoop l ctx b sT xs rm =
              Inr (sel, cs, fold List.insert (filter (\<lambda>u. step u = MarkRemove) ?pre) rm)"
        using eq Cons by (simp add: step_def writeCache_def)
      with xs' pre SelectBid show ?thesis by (rule win)
    qed
  qed
qed


lemma Remove_fields:
  "Remove l t = (r, l') \<Longrightarrow>
     index_impl l' = index_impl l \<and> af l' = af l \<and> txEncoder l' = txEncoder l \<and>
     txDecoder l' = txDecoder l \<and> anteHandler l' = anteHandler l \<and> hashHex l' = hashHex l"
  by (auto simp: Remove_def split: sum.splits prod.splits option.splits if_splits)

lemma removeTxs_fields:
  "removeTxs l ts = (r, l') \<Longrightarrow>
     index_impl l' = index_impl l \<and> af l' = af l \<and> txEncoder l' = txEncoder l \<and>
     txDecoder l' = txDecoder l \<and> anteHandler l' = anteHandler l \<and> hashHex l' = hashHex l"
proof (induction ts arbitrary: l)
  case Nil
  then show ?case by simp
next
  case (Cons t ts)
  obtain r1 l1 where r1: "Remove l t = (r1, l1)" by (cases "Remove l t")
  note f1 = Remove_fields[OF r1]
  show ?case
  proof (cases r1)
    case None
    with Cons.prems r1 have "removeTxs l1 ts = (r, l')" by simp
    from Cons.IH[OF this] f1 show ?thesis by simp
  next
    case (Some e)
    with Cons.prems r1 have "l' = l1" by simp
    with f1 show ?thesis by simp
  qed
qed

lemma Remove_error_iff:
  "fst (Remove l t) \<noteq> None \<longleftrightarrow>
     isl (txEncoder l t) \<or>
     (\<exists>e. fst (mp_Remove (index_impl l) t (index l)) = Some e \<and> \<not> errors_Is e ErrTxNotFound)"
  by (auto simp: Remove_def getTxHashStr_def split: sum.splits prod.splits option.splits if_splits)

lemma removeTxs_append:
  "removeTxs l (pre @ rest) =
     (case removeTxs l pre of (Some e, l1) \<Rightarrow> (Some e, l1) | (None, l1) \<Rightarrow> removeTxs l1 rest)"
proof (induction pre arbitrary: l)
  case Nil
  then show ?case by simp
next
  case (Cons t pre)
  then show ?case by (cases "Remove l t") (auto split: option.splits)
qed

lemma removeTxs_error_iff:
  "fst (removeTxs l ts) \<noteq> None \<longleftrightarrow>
     (\<exists>pre t post l1. ts = pre @ t # post \<and> removeTxs l pre = (None, l1) \<and>
        fst (Remove l1 t) \<noteq> None)"
proof (induction ts arbitrary: l)
  case Nil
  then show ?case by simp
next
  case (Cons a ts)
  obtain r1 l1 where r1: "Remove l a = (r1, l1)" by (cases "Remove l a")
  show ?case
  proof (cases r1)
    case None
    have "fst (removeTxs l (a # ts)) \<noteq> None \<longleftrightarrow> fst (removeTxs l1 ts) \<noteq> None"
      using r1 None by simp
    also have "\<dots> \<longleftrightarrow> (\<exists>pre t post l2. ts = pre @ t # post \<and> removeTxs l1 pre = (None, l2) \<and>
        fst (Remove l2 t) \<noteq> None)" by (rule Cons.IH)
    also have "\<dots> \<longleftrightarrow> (\<exists>pre t post l2. a # ts = pre @ t # post \<and> removeTxs l pre = (None, l2) \<and>
        fst (Remove l2 t) \<noteq> None)" (is "?L \<longleftrightarrow> ?R")
    proof
      assume ?L
      then obtain pre t post l2 where "ts = pre @ t # post" "removeTxs l1 pre = (None, l2)"
        "fst (Remove l2 t) \<noteq> None" by blast
      then have "a # ts = (a # pre) @ t # post \<and> removeTxs l (a # pre) = (None, l2) \<and>
        fst (Remove l2 t) \<noteq> None" using r1 None by simp
      then show ?R by blast
    next
      assume ?R
      then obtain pre t post l2 where d: "a # ts = pre @ t # post" "removeTxs l pre = (None, l2)"
        "fst (Remove l2 t) \<noteq> None" by blast
      show ?L
      proof (cases pre)
        case Nil
        with d r1 None show ?thesis by simp
      next
        case (Cons a' pre')
        with d r1 None have "ts = pre' @ t # post \<and> removeTxs l1 pre' = (None, l2)" by simp
        with d(3) show ?thesis by blast
      qed
    qed
    finally show ?thesis .
  next
    case (Some e)
    have "a # ts = [] @ a # ts \<and> removeTxs l [] = (None, l) \<and> fst (Remove l a) \<noteq> None"
      using r1 Some by simp
    then have "\<exists>pre t post l2. a # ts = pre @ t # post \<and> removeTxs l pre = (None, l2) \<and>
        fst (Remove l2 t) \<noteq> None" by blast
    moreover have "fst (removeTxs l (a # ts)) \<noteq> None" using r1 Some by simp
    ultimately show ?thesis by simp
  qed
qed


subsection \<open>The execution context\<close>





subsection \<open>Errors of PrepareLane\<close>


lemma loop_marked:
  assumes "selectBidTxLoop l ctx b sT xs [] = Inr (sel, s, rm)"
  shows "\<forall>t\<in>set rm. t \<in> set xs \<and> selectBidTx l ctx b sT t = MarkRemove"
proof (cases rule: loop_cases[of xs l ctx b sT])
  case none
  from none(2)[of "[]"] assms show ?thesis by (auto simp: set_fold_insert)
next
  case (err pre t post e)
  from err(4)[of "[]"] assms show ?thesis by simp
next
  case (win pre w post sel' cs)
  from win(4)[of "[]"] assms win(1) show ?thesis by (auto simp: set_fold_insert)
qed

lemma MarkRemove_encodes:
  "selectBidTx l ctx b sT t = MarkRemove \<Longrightarrow> \<not> isl (txEncoder l t)"
  using step_ReturnErr_iff[of l ctx b sT t] by auto


text \<open>
  C6. With \<open>rangeOrder\<close> a rearrangement of the marked transactions, \<^verbatim>\<open>PrepareLane\<close>
  returns an error exactly when the encoder fails on a pool entry that the scan reaches (no
  entry before it is an unselected, fully valid candidate within the budget), or when the
  scan ends without error and, in the removal loop, the pool's \<^verbatim>\<open>Remove\<close> fails on a marked
  transaction with an error that is not the not-found error. What the validation hook, the
  factory and the sizes do to a candidate never reaches the caller: when every pool entry has
  an encoding and the pool's \<^verbatim>\<open>Remove\<close> reports nothing but not-found, the call returns
  without error.
\<close>

theorem PrepareLane_error_iff:
  assumes perm: "\<forall>xs. set (rangeOrder xs) = set xs"
  shows "(isl (fst (PrepareLane rangeOrder l ctx maxTxBytes selectedTxs)) \<longleftrightarrow>
      (\<exists>pre t post. Select l = pre @ t # post \<and>
         (\<forall>u\<in>set pre. \<not> (candidate l selectedTxs u \<and> fullyValid l ctx u \<and>
                              fitsBudget l maxTxBytes u)) \<and>
         isl (txEncoder l t))
    \<or> (\<exists>sel s rm pre t post l1 e.
         selectBidTxLoop l ctx maxTxBytes selectedTxs (Select l) [] = Inr (sel, s, rm) \<and>
         rangeOrder rm = pre @ t # post \<and> removeTxs l pre = (None, l1) \<and>
         fst (mp_Remove (index_impl l1) t (index l1)) = Some e \<and> \<not> errors_Is e ErrTxNotFound))
   \<and> ((\<forall>t\<in>set (Select l). \<not> isl (txEncoder l t)) \<and>
       (\<forall>t m e. fst (mp_Remove (index_impl l) t m) = Some e \<longrightarrow> errors_Is e ErrTxNotFound)
       \<longrightarrow> \<not> isl (fst (PrepareLane rangeOrder l ctx maxTxBytes selectedTxs)))"
proof -
  let ?step = "selectBidTx l ctx maxTxBytes selectedTxs"
  let ?loop = "selectBidTxLoop l ctx maxTxBytes selectedTxs (Select l) []"
  let ?A = "\<exists>pre t post. Select l = pre @ t # post \<and>
         (\<forall>u\<in>set pre. \<not> (candidate l selectedTxs u \<and> fullyValid l ctx u \<and>
                              fitsBudget l maxTxBytes u)) \<and>
         isl (txEncoder l t)"
  let ?B = "\<exists>sel s rm pre t post l1 e.
         ?loop = Inr (sel, s, rm) \<and>
         rangeOrder rm = pre @ t # post \<and> removeTxs l pre = (None, l1) \<and>
         fst (mp_Remove (index_impl l1) t (index l1)) = Some e \<and> \<not> errors_Is e ErrTxNotFound"
  let ?E = "isl (fst (PrepareLane rangeOrder l ctx maxTxBytes selectedTxs))"
  have nosel: "(\<forall>sel cs. ?step u \<noteq> SelectBid sel cs) \<longleftrightarrow>
      \<not> (candidate l selectedTxs u \<and> fullyValid l ctx u \<and> fitsBudget l maxTxBytes u)" for u
    using step_SelectBid_iff[of l ctx maxTxBytes selectedTxs u] by blast
  have A_E: "?A \<Longrightarrow> ?E"
  proof -
    assume ?A
    then obtain pre t post where d: "Select l = pre @ t # post"
      "\<forall>u\<in>set pre. \<forall>sel cs. ?step u \<noteq> SelectBid sel cs" "isl (txEncoder l t)"
      using nosel by blast
    from d(3) obtain e where "?step t = ReturnErr e"
      using step_ReturnErr_iff[of l ctx maxTxBytes selectedTxs t] by blast
    from loop_Inl_if[OF d(2) this, of post "[]"] d(1) have "isl ?loop" by simp
    then show ?E by (auto simp: PrepareLane_unfold isl_def)
  qed
  have B_E: "?B \<Longrightarrow> ?E"
  proof -
    assume ?B
    then obtain sel s rm pre t post l1 e where d: "?loop = Inr (sel, s, rm)"
      "rangeOrder rm = pre @ t # post" "removeTxs l pre = (None, l1)"
      "fst (mp_Remove (index_impl l1) t (index l1)) = Some e" "\<not> errors_Is e ErrTxNotFound"
      by blast
    from d(4,5) have "fst (Remove l1 t) \<noteq> None" using Remove_error_iff[of l1 t] by blast
    with d(2,3) have "fst (removeTxs l (rangeOrder rm)) \<noteq> None"
      using removeTxs_error_iff[of l "rangeOrder rm"] by blast
    with d(1) show ?E
      by (auto simp: PrepareLane_unfold split: prod.splits option.splits)
  qed
  have E_AB: "?E \<Longrightarrow> ?A \<or> ?B"
  proof -
    assume E: ?E
    show "?A \<or> ?B"
    proof (cases ?loop)
      case (Inl e)
      then obtain pre t post where d: "Select l = pre @ t # post"
        "\<forall>u\<in>set pre. ?step u = Skip \<or> ?step u = MarkRemove" "?step t = ReturnErr e"
        by (cases rule: loop_cases[of "Select l" l ctx maxTxBytes selectedTxs]) auto
      from d(2) have "\<forall>u\<in>set pre. \<forall>sel cs. ?step u \<noteq> SelectBid sel cs" by auto
      moreover from d(3) have "isl (txEncoder l t)"
        using step_ReturnErr_iff[of l ctx maxTxBytes selectedTxs t] by blast
      ultimately have ?A using d(1) nosel by blast
      then show ?thesis ..
    next
      case (Inr r)
      then obtain sel s rm where r: "?loop = Inr (sel, s, rm)" by (cases r) auto
      with E have "fst (removeTxs l (rangeOrder rm)) \<noteq> None"
        by (auto simp: PrepareLane_unfold split: prod.splits option.splits)
      then obtain pre t post l1 where d: "rangeOrder rm = pre @ t # post"
        "removeTxs l pre = (None, l1)" "fst (Remove l1 t) \<noteq> None"
        using removeTxs_error_iff[of l "rangeOrder rm"] by blast
      have "t \<in> set rm" using d(1) perm by (metis in_set_conv_decomp)
      with loop_marked[OF r] have "?step t = MarkRemove" by blast
      then have enc: "\<not> isl (txEncoder l t)" by (rule MarkRemove_encodes)
      have "txEncoder l1 = txEncoder l" using removeTxs_fields[OF d(2)] by simp
      with enc d(3) obtain e where
        "fst (mp_Remove (index_impl l1) t (index l1)) = Some e" "\<not> errors_Is e ErrTxNotFound"
        using Remove_error_iff[of l1 t] by auto
      with r d(1,2) have ?B by blast
      then show ?thesis ..
    qed
  qed
  have indep: "\<not> ?E" if enc: "\<forall>t\<in>set (Select l). \<not> isl (txEncoder l t)"
    and rem: "\<forall>t m e. fst (mp_Remove (index_impl l) t m) = Some e \<longrightarrow> errors_Is e ErrTxNotFound"
  proof
    assume ?E
    then have "?A \<or> ?B" by (rule E_AB)
    then show False
    proof
      assume ?A
      then obtain pre t post where "Select l = pre @ t # post" "isl (txEncoder l t)" by blast
      with enc show False by auto
    next
      assume ?B
      then obtain pre l1 t e where d: "removeTxs l pre = (None, l1)"
        "fst (mp_Remove (index_impl l1) t (index l1)) = Some e" "\<not> errors_Is e ErrTxNotFound"
        by blast
      have "index_impl l1 = index_impl l" using removeTxs_fields[OF d(1)] by simp
      with d(2,3) rem show False by auto
    qed
  qed
  show ?thesis using A_E B_E E_AB indep by blast
qed


text \<open>
  The witness: the scan marks \<open>bidC\<close> (its bundle is rejected) and then reaches an entry
  without encoding, and the call fails; it fails as well when the pool refuses to remove the
  marked \<open>bidC\<close>; with \<open>bidC\<close> and \<open>bidB\<close> in the priority mempool the rejected bundle of
  \<open>bidC\<close> does not fail the call.
\<close>

lemma Insert_fields:
  "Insert l g t = (r, l') \<Longrightarrow>
     index_impl l' = index_impl l \<and> af l' = af l \<and> txEncoder l' = txEncoder l \<and>
     txDecoder l' = txDecoder l \<and> anteHandler l' = anteHandler l \<and> hashHex l' = hashHex l"
  by (auto simp: Insert_def split: sum.splits prod.splits option.splits if_splits)

lemma runOps_fields:
  "index_impl (runOps l ops) = index_impl l \<and> af (runOps l ops) = af l \<and>
   txEncoder (runOps l ops) = txEncoder l \<and> txDecoder (runOps l ops) = txDecoder l \<and>
   anteHandler (runOps l ops) = anteHandler l \<and> hashHex (runOps l ops) = hashHex l"
proof (induction l ops rule: runOps.induct)
  case (1 l)
  then show ?case by simp
next
  case (2 l g tx ops)
  then show ?case using Insert_fields[of l g tx "fst (Insert l g tx)" "snd (Insert l g tx)"] by simp
next
  case (3 l tx ops)
  then show ?case using Remove_fields[of l tx "fst (Remove l tx)" "snd (Remove l tx)"] by simp
qed

lemma toy_remove_not_found:
  "\<forall>t m e. fst (mp_Remove (index_impl (laneOf txs)) t m) = Some e \<longrightarrow> errors_Is e ErrTxNotFound"
  using runOps_fields[of toyLane]
  by (simp add: laneOf_def laneWith_def toyLane_def NewTOBLane_def PriorityMempool_def pm_Remove_def)

theorem PrepareLane_error_iff_witness:
  "(\<forall>xs::toy_tx list. set (id xs) = set xs) \<and>
   isl (fst (PrepareLane id (toyLane\<lparr>index := [(70, bidC), (0, NoEncoding)]\<rparr>) ((), []) 200 [])) \<and>
   isl (fst (PrepareLane id brokenLane ((), []) 200 [])) \<and>
   \<not> isl (fst (PrepareLane id (laneOf [bidC, bidB]) ((), []) 200 []))"
proof -
  let ?L = "toyLane\<lparr>index := [(70, bidC), (0, NoEncoding)]\<rparr>"
  have p: "\<forall>xs::toy_tx list. set (id xs) = set xs" by simp
  have sel: "Select ?L = [bidC] @ NoEncoding # []" by (simp add: lane_defs toy_defs)
  have c: "\<forall>u\<in>set [bidC]. \<not> (candidate ?L [] u \<and> fullyValid ?L ((), []) u \<and> fitsBudget ?L 200 u)"
    by (simp add: fullyValid_def lane_defs toy_defs)
  have e: "isl (txEncoder ?L NoEncoding)" by (simp add: lane_defs toy_defs)
  from sel c e have A: "\<exists>pre t post. Select ?L = pre @ t # post \<and>
         (\<forall>u\<in>set pre. \<not> (candidate ?L [] u \<and> fullyValid ?L ((), []) u \<and> fitsBudget ?L 200 u)) \<and>
         isl (txEncoder ?L t)" by blast
  have 1: "isl (fst (PrepareLane id ?L ((), []) 200 []))"
    using conjunct1[OF PrepareLane_error_iff[OF p, of ?L "((), [])" 200 "[]"]] A by blast
  have enc: "\<forall>t\<in>set (Select (laneOf [bidC, bidB])). \<not> isl (txEncoder (laneOf [bidC, bidB]) t)"
    by (simp add: lane_defs toy_defs)
  have 2: "\<not> isl (fst (PrepareLane id (laneOf [bidC, bidB]) ((), []) 200 []))"
    using conjunct2[OF PrepareLane_error_iff[OF p, of "laneOf [bidC, bidB]" "((), [])" 200 "[]"]]
      enc toy_remove_not_found[of "[bidC, bidB]"] by blast
  have loop: "selectBidTxLoop brokenLane ((), []) 200 [] (Select brokenLane) [] = Inr ([], [], [bidC])"
    by (simp add: brokenLane_def lane_defs toy_defs Let_def)
  have o: "id [bidC] = [] @ bidC # []" by simp
  have r0: "removeTxs brokenLane [] = (None, brokenLane)" by simp
  have f: "fst (mp_Remove (index_impl brokenLane) bidC (index brokenLane)) = Some (Errorf ''no signer'')"
    by (simp add: brokenLane_def)
  have n: "\<not> errors_Is (Errorf ''no signer'') ErrTxNotFound" by simp
  from loop o r0 f n have B: "\<exists>sel s rm pre t post l1 e.
         selectBidTxLoop brokenLane ((), []) 200 [] (Select brokenLane) [] = Inr (sel, s, rm) \<and>
         id rm = pre @ t # post \<and> removeTxs brokenLane pre = (None, l1) \<and>
         fst (mp_Remove (index_impl l1) t (index l1)) = Some e \<and> \<not> errors_Is e ErrTxNotFound"
    by blast
  have 3: "isl (fst (PrepareLane id brokenLane ((), []) 200 []))"
    using conjunct1[OF PrepareLane_error_iff[OF p, of brokenLane "((), [])" 200 "[]"]] B by blast
  from p 1 3 2 show ?thesis by blast
qed


subsection \<open>The priority mempool under the lane\<close>


lemma filter_absent: "k \<notin> f ` snd ` set xs \<Longrightarrow> filter (\<lambda>y. f (snd y) \<noteq> k) xs = xs"
  by (induction xs) auto

lemma cont_not_SelectBid:
  "\<forall>u\<in>A. selectBidTx l ctx b sT u = Skip \<or> selectBidTx l ctx b sT u = MarkRemove \<Longrightarrow>
   \<forall>u\<in>A. \<forall>sel cs. selectBidTx l ctx b sT u \<noteq> SelectBid sel cs"
  by auto

lemma stop_position:
  "pre1 @ w # post1 = pre2 @ t # post2 \<Longrightarrow> P w \<Longrightarrow> \<forall>u\<in>set pre2. \<not> P u \<Longrightarrow> \<not> P t \<Longrightarrow>
   t \<in> set pre1"
proof (induction pre1 arbitrary: pre2)
  case Nil
  then show ?case by (cases pre2) auto
next
  case (Cons a pre1)
  then show ?case by (cases pre2) auto
qed

lemma loop_marked_iff:
  assumes "selectBidTxLoop l ctx b sT xs [] = Inr (sel, s, rm)"
  shows "t \<in> set rm \<longleftrightarrow>
     (\<exists>pre post. xs = pre @ t # post \<and>
        (\<forall>u\<in>set pre. \<forall>sel cs. selectBidTx l ctx b sT u \<noteq> SelectBid sel cs) \<and>
        selectBidTx l ctx b sT t = MarkRemove)"
    (is "_ \<longleftrightarrow> ?R")
proof (cases rule: loop_cases[of xs l ctx b sT])
  case none
  from none(2)[of "[]"] assms have rm: "set rm = {u \<in> set xs. selectBidTx l ctx b sT u = MarkRemove}"
    by (auto simp: set_fold_insert)
  show ?thesis
  proof
    assume "t \<in> set rm"
    with rm have t: "t \<in> set xs" "selectBidTx l ctx b sT t = MarkRemove" by auto
    from t(1) obtain pre post where d: "xs = pre @ t # post" by (auto dest: split_list)
    from none(1) d have "\<forall>u\<in>set pre. selectBidTx l ctx b sT u = Skip \<or> selectBidTx l ctx b sT u = MarkRemove"
      by simp
    then have "\<forall>u\<in>set pre. \<forall>sel cs. selectBidTx l ctx b sT u \<noteq> SelectBid sel cs"
      by (rule cont_not_SelectBid)
    with d t(2) show ?R by blast
  next
    assume ?R
    with rm show "t \<in> set rm" by auto
  qed
next
  case (err pre t post e)
  from err(4)[of "[]"] assms show ?thesis by simp
next
  case (win pre w post sel' cs)
  from win(4)[of "[]"] assms have rm: "set rm = {u \<in> set pre. selectBidTx l ctx b sT u = MarkRemove}"
    by (auto simp: set_fold_insert)
  show ?thesis
  proof
    assume "t \<in> set rm"
    with rm have t: "t \<in> set pre" "selectBidTx l ctx b sT t = MarkRemove" by auto
    from t(1) obtain p1 p2 where d: "pre = p1 @ t # p2" by (auto dest: split_list)
    with win(1) have "xs = p1 @ t # (p2 @ w # post)" by simp
    moreover from d win(2) have "\<forall>u\<in>set p1. selectBidTx l ctx b sT u = Skip \<or> selectBidTx l ctx b sT u = MarkRemove"
      by simp
    then have "\<forall>u\<in>set p1. \<forall>sel cs. selectBidTx l ctx b sT u \<noteq> SelectBid sel cs"
      by (rule cont_not_SelectBid)
    ultimately show ?R using t(2) by blast
  next
    assume ?R
    then obtain pre2 post2 where d: "xs = pre2 @ t # post2"
      "\<forall>u\<in>set pre2. \<forall>sel cs. selectBidTx l ctx b sT u \<noteq> SelectBid sel cs"
      "selectBidTx l ctx b sT t = MarkRemove" by blast
    have "t \<in> set pre"
    proof (rule stop_position[where P = "\<lambda>u. \<exists>sel cs. selectBidTx l ctx b sT u = SelectBid sel cs"])
      show "pre @ w # post = pre2 @ t # post2" using win(1) d(1) by simp
      show "\<exists>sel cs. selectBidTx l ctx b sT w = SelectBid sel cs" using win(3) by blast
      show "\<forall>u\<in>set pre2. \<not> (\<exists>sel cs. selectBidTx l ctx b sT u = SelectBid sel cs)" using d(2) by blast
      show "\<not> (\<exists>sel cs. selectBidTx l ctx b sT t = SelectBid sel cs)" using d(3) by simp
    qed
    with rm d(3) show "t \<in> set rm" by simp
  qed
qed

lemma getTxHashStr_cong:
  "txEncoder l' = txEncoder l \<Longrightarrow> hashHex l' = hashHex l \<Longrightarrow> getTxHashStr l' = getTxHashStr l"
  by (rule ext) (simp add: getTxHashStr_def split: sum.splits)

lemma getTxHashStr_contentHash:
  "getTxHashStr l t = Inr h \<longleftrightarrow> contentHash (txEncoder l) (hashHex l) t = Some h"
  by (auto simp: getTxHashStr_def contentHash_def split: sum.splits)

lemma pm_Select:
  "index_impl l = PriorityMempool ident priority maxTx \<Longrightarrow> Select l = map snd (index l)"
  by (simp add: Select_def PriorityMempool_def)

lemma pm_CountTx:
  "index_impl l = PriorityMempool ident priority maxTx \<Longrightarrow> CountTx l = length (Select l)"
  by (simp add: CountTx_def Select_def PriorityMempool_def)

lemma laneInvariant_Select:
  assumes "index_impl l = PriorityMempool ident' priority maxTx"
  shows "laneInvariant ident l \<longleftrightarrow>
     distinct (map ident (Select l)) \<and> (\<forall>t\<in>set (Select l). ident t \<noteq> None) \<and>
     txIndex l = {h. \<exists>t\<in>set (Select l). ident t = Some h}"
  by (auto simp: laneInvariant_def pm_Select[OF assms])

lemma pm_Remove_index:
  assumes "index_impl l = PriorityMempool ident priority maxTx" and "getTxHashStr l t = Inr h"
  shows "Remove l t =
    (None, l\<lparr>index := filter (\<lambda>y. ident (snd y) \<noteq> ident t) (index l),
            txIndex := txIndex l - {h}\<rparr>)"
proof -
  have "filter (\<lambda>y. ident (snd y) \<noteq> ident t) (index l) = index l"
    if "ident t \<notin> ident ` snd ` set (index l)"
    using that by (rule filter_absent)
  then show ?thesis using assms
    by (auto simp: Remove_def PriorityMempool_def pm_Remove_def)
qed

lemma pm_removeTxs:
  assumes "index_impl l = PriorityMempool ident priority maxTx"
    and "\<forall>t\<in>set ts. \<not> isl (txEncoder l t)"
  shows "\<exists>l'. removeTxs l ts = (None, l') \<and>
     index l' = filter (\<lambda>y. ident (snd y) \<notin> ident ` set ts) (index l) \<and>
     txIndex l' = txIndex l - {h. \<exists>t\<in>set ts. getTxHashStr l t = Inr h}"
  using assms
proof (induction ts arbitrary: l)
  case Nil
  then show ?case by simp
next
  case (Cons a ts)
  from Cons.prems(2) obtain h where h: "getTxHashStr l a = Inr h"
    by (cases "txEncoder l a") (auto simp: getTxHashStr_def)
  let ?l1 = "l\<lparr>index := filter (\<lambda>y. ident (snd y) \<noteq> ident a) (index l),
               txIndex := txIndex l - {h}\<rparr>"
  have r: "Remove l a = (None, ?l1)" using pm_Remove_index[OF Cons.prems(1) h] .
  have hs: "getTxHashStr ?l1 = getTxHashStr l" by (rule getTxHashStr_cong) simp_all
  have "index_impl ?l1 = PriorityMempool ident priority maxTx" using Cons.prems(1) by simp
  moreover have "\<forall>t\<in>set ts. \<not> isl (txEncoder ?l1 t)" using Cons.prems(2) by simp
  ultimately obtain l' where l': "removeTxs ?l1 ts = (None, l')"
     "index l' = filter (\<lambda>y. ident (snd y) \<notin> ident ` set ts) (index ?l1)"
     "txIndex l' = txIndex ?l1 - {h. \<exists>t\<in>set ts. getTxHashStr ?l1 t = Inr h}"
    using Cons.IH[of ?l1] by blast
  have "removeTxs l (a # ts) = (None, l')" using r l'(1) by simp
  moreover have "index l' = filter (\<lambda>y. ident (snd y) \<notin> ident ` set (a # ts)) (index l)"
    using l'(2) by (auto intro: filter_cong)
  moreover have "txIndex l' = txIndex l - {h. \<exists>t\<in>set (a # ts). getTxHashStr l t = Inr h}"
    using l'(3) h unfolding hs by auto
  ultimately show ?case by blast
qed

lemma PrepareLane_pm_success:
  assumes impl: "index_impl l = PriorityMempool ident priority maxTx"
    and perm: "\<forall>xs. set (rangeOrder xs) = set xs"
    and run: "PrepareLane rangeOrder l ctx maxTxBytes selectedTxs = (Inr sel, store', l')"
  obtains rm where
    "selectBidTxLoop l ctx maxTxBytes selectedTxs (Select l) [] = Inr (sel, store', rm)"
    "Select l' = filter (\<lambda>t. ident t \<notin> ident ` set rm) (Select l)"
    "txIndex l' = txIndex l - {h. \<exists>t\<in>set rm. getTxHashStr l t = Inr h}"
    "getTxHashStr l' = getTxHashStr l"
    "index_impl l' = index_impl l"
proof -
  from run obtain rm where loop:
    "selectBidTxLoop l ctx maxTxBytes selectedTxs (Select l) [] = Inr (sel, store', rm)"
    and rem: "removeTxs l (rangeOrder rm) = (None, l')"
    by (auto simp: PrepareLane_unfold split: sum.splits prod.splits option.splits)
  have "\<forall>t\<in>set (rangeOrder rm). \<not> isl (txEncoder l t)"
  proof
    fix t assume "t \<in> set (rangeOrder rm)"
    with perm have "t \<in> set rm" by simp
    with loop_marked[OF loop] have "selectBidTx l ctx maxTxBytes selectedTxs t = MarkRemove"
      by simp
    then show "\<not> isl (txEncoder l t)" by (rule MarkRemove_encodes)
  qed
  from pm_removeTxs[OF impl this] rem have
    "index l' = filter (\<lambda>y. ident (snd y) \<notin> ident ` set (rangeOrder rm)) (index l)"
    "txIndex l' = txIndex l - {h. \<exists>t\<in>set (rangeOrder rm). getTxHashStr l t = Inr h}"
    by simp_all
  with perm have a:
    "index l' = filter (\<lambda>y. ident (snd y) \<notin> ident ` set rm) (index l)"
    "txIndex l' = txIndex l - {h. \<exists>t\<in>set rm. getTxHashStr l t = Inr h}"
    by simp_all
  have c: "index_impl l' = index_impl l" using removeTxs_fields[OF rem] by simp
  have "Select l' = map snd (index l')" using impl c by (simp add: pm_Select)
  also have "\<dots> = filter (\<lambda>t. ident t \<notin> ident ` set rm) (map snd (index l))"
    using a(1) by (simp add: filter_map o_def)
  finally have s: "Select l' = filter (\<lambda>t. ident t \<notin> ident ` set rm) (Select l)"
    using impl by (simp add: pm_Select)
  have b: "getTxHashStr l' = getTxHashStr l"
    using removeTxs_fields[OF rem] by (intro getTxHashStr_cong) simp_all
  show thesis using that[OF loop s a(2) b c] .
qed

lemma set_pm_place: "set (pm_place p t xs) = insert (p, t) (set xs)"
  by (induction xs) auto

lemma distinct_pm_place:
  "distinct (map (f \<circ> snd) (pm_place p t xs)) \<longleftrightarrow>
     f t \<notin> f ` snd ` set xs \<and> distinct (map (f \<circ> snd) xs)"
  by (induction xs) (auto simp: set_pm_place)

lemma Insert_invariant:
  assumes impl: "index_impl l = PriorityMempool ident priority maxTx"
    and ident: "ident = contentHash (txEncoder l) (hashHex l)"
    and inv: "laneInvariant ident l"
  shows "laneInvariant ident (snd (Insert l g t))"
proof (cases "getTxHashStr l t")
  case (Inl e)
  then show ?thesis using inv by (simp add: Insert_def)
next
  case (Inr h)
  then have it: "ident t = Some h" using ident getTxHashStr_contentHash[of l t h] by simp
  show ?thesis
  proof (cases "ident t \<in> ident ` snd ` set (index l) \<or> maxTx \<le> int (length (index l))")
    case True
    then have "snd (Insert l g t) = l\<lparr>index := index l\<rparr>"
      using Inr impl by (auto simp: Insert_def PriorityMempool_def pm_Insert_def)
    then show ?thesis using inv by (simp add: laneInvariant_def)
  next
    case False
    let ?pool = "pm_place (priority g t) t (index l)"
    from False have "snd (Insert l g t) = l\<lparr>index := ?pool, txIndex := insert h (txIndex l)\<rparr>"
      using Inr impl by (auto simp: Insert_def PriorityMempool_def pm_Insert_def)
    moreover have "distinct (map (ident \<circ> snd) ?pool)"
      using False inv by (simp add: distinct_pm_place laneInvariant_def)
    moreover have "\<forall>y \<in> set ?pool. ident (snd y) \<noteq> None"
      using inv it by (auto simp: set_pm_place laneInvariant_def)
    moreover have "insert h (txIndex l) = {h'. \<exists>y \<in> set ?pool. ident (snd y) = Some h'}"
      using inv it by (auto simp: set_pm_place laneInvariant_def)
    ultimately show ?thesis by (simp add: laneInvariant_def)
  qed
qed

lemma Remove_invariant:
  assumes impl: "index_impl l = PriorityMempool ident priority maxTx"
    and ident: "ident = contentHash (txEncoder l) (hashHex l)"
    and inv: "laneInvariant ident l"
  shows "laneInvariant ident (snd (Remove l t))"
proof (cases "getTxHashStr l t")
  case (Inl e)
  then show ?thesis using inv by (simp add: Remove_def)
next
  case (Inr h)
  then have it: "ident t = Some h" using ident getTxHashStr_contentHash[of l t h] by simp
  let ?pool = "filter (\<lambda>y. ident (snd y) \<noteq> ident t) (index l)"
  have r: "snd (Remove l t) = l\<lparr>index := ?pool, txIndex := txIndex l - {h}\<rparr>"
    using pm_Remove_index[OF impl Inr] by simp
  have "distinct (map (ident \<circ> snd) ?pool)"
    using inv by (simp add: laneInvariant_def distinct_map_filter)
  moreover have "\<forall>y \<in> set ?pool. ident (snd y) \<noteq> None"
    using inv by (simp add: laneInvariant_def)
  moreover have "txIndex l - {h} = {h'. \<exists>y \<in> set ?pool. ident (snd y) = Some h'}"
  proof -
    have "txIndex l = {h'. \<exists>y \<in> set (index l). ident (snd y) = Some h'}"
      using inv by (simp add: laneInvariant_def)
    then show ?thesis using it by fastforce
  qed
  ultimately show ?thesis using r by (simp add: laneInvariant_def)
qed

lemma runOps_invariant:
  assumes "index_impl l = PriorityMempool ident priority maxTx"
    and "ident = contentHash (txEncoder l) (hashHex l)"
    and "laneInvariant ident l"
  shows "laneInvariant ident (runOps l ops)"
  using assms
proof (induction l ops rule: runOps.induct)
  case (1 l)
  then show ?case by simp
next
  case (2 l g tx ops)
  obtain r l1 where i: "Insert l g tx = (r, l1)" by (cases "Insert l g tx")
  note f = Insert_fields[OF i]
  from Insert_invariant[OF "2.prems", of g tx] i have "laneInvariant ident l1" by simp
  moreover have "index_impl l1 = PriorityMempool ident priority maxTx" using f "2.prems"(1) by simp
  moreover have "ident = contentHash (txEncoder l1) (hashHex l1)" using f "2.prems"(2) by simp
  ultimately show ?case using "2.IH" i by simp
next
  case (3 l tx ops)
  obtain r l1 where i: "Remove l tx = (r, l1)" by (cases "Remove l tx")
  note f = Remove_fields[OF i]
  from Remove_invariant[OF "3.prems", of tx] i have "laneInvariant ident l1" by simp
  moreover have "index_impl l1 = PriorityMempool ident priority maxTx" using f "3.prems"(1) by simp
  moreover have "ident = contentHash (txEncoder l1) (hashHex l1)" using f "3.prems"(2) by simp
  ultimately show ?case using "3.IH" i by simp
qed

lemma reachable_lane:
  fixes hh prio dec enc maxTx f ante ops
  defines "l \<equiv> runOps (NewTOBLane hh prio dec enc maxTx f ante) ops"
  shows "index_impl l = PriorityMempool (contentHash (txEncoder l) (hashHex l)) prio maxTx"
    and "laneInvariant (contentHash (txEncoder l) (hashHex l)) l"
    and "txEncoder l = enc" and "hashHex l = hh" and "af l = f" and "anteHandler l = ante"
proof -
  let ?l0 = "NewTOBLane hh prio dec enc maxTx f ante"
  have f: "index_impl l = index_impl ?l0" "af l = af ?l0" "txEncoder l = txEncoder ?l0"
     "hashHex l = hashHex ?l0" "anteHandler l = anteHandler ?l0"
    unfolding l_def using runOps_fields[of ?l0 ops] by simp_all
  have 0: "index_impl ?l0 = PriorityMempool (contentHash enc hh) prio maxTx"
    "txEncoder ?l0 = enc" "hashHex ?l0 = hh" "af ?l0 = f" "anteHandler ?l0 = ante"
    "index ?l0 = []" "txIndex ?l0 = {}"
    by (simp_all add: NewTOBLane_def)
  have inv0: "laneInvariant (contentHash enc hh) ?l0" using 0 by (simp add: laneInvariant_def)
  have "laneInvariant (contentHash enc hh) l"
    unfolding l_def
    by (rule runOps_invariant[OF 0(1) _ inv0]) (simp_all add: 0)
  then show
    "index_impl l = PriorityMempool (contentHash (txEncoder l) (hashHex l)) prio maxTx"
    "laneInvariant (contentHash (txEncoder l) (hashHex l)) l"
    "txEncoder l = enc" "hashHex l = hh" "af l = f" "anteHandler l = ante"
    using f 0 by simp_all
qed

lemma Insert_then_Contains: "Insert l g T = (None, l') \<Longrightarrow> Contains l' T = (True, None)"
  by (auto simp: Insert_def Contains_def getTxHashStr_def
      split: sum.splits prod.splits option.splits)

lemma Remove_then_Contains: "Remove l T = (None, l') \<Longrightarrow> Contains l' T = (False, None)"
  by (auto simp: Remove_def Contains_def getTxHashStr_def
      split: sum.splits prod.splits option.splits if_splits)

lemma pm_Remove_then_Contains:
  assumes "index_impl l = PriorityMempool ident priority maxTx"
  shows "fst (Contains (snd (Remove l T)) T) = False"
proof (cases "getTxHashStr l T")
  case (Inl e)
  then show ?thesis by (simp add: Remove_def Contains_def)
next
  case (Inr h)
  let ?l1 = "l\<lparr>index := filter (\<lambda>y. ident (snd y) \<noteq> ident T) (index l),
               txIndex := txIndex l - {h}\<rparr>"
  have r: "Remove l T = (None, ?l1)" using pm_Remove_index[OF assms Inr] .
  from Remove_then_Contains[OF r] r show ?thesis by simp
qed

lemma card_identities:
  assumes "distinct (map ident xs)" and "\<forall>t\<in>set xs. ident t \<noteq> None"
  shows "card {h. \<exists>t\<in>set xs. ident t = Some h} = length xs"
proof -
  have "{h. \<exists>t\<in>set xs. ident t = Some h} = the ` set (map ident xs)"
    using assms(2) by (force simp: image_iff)
  moreover have "inj_on the (set (map ident xs))"
  proof (rule inj_onI)
    fix a b assume ab: "a \<in> set (map ident xs)" "b \<in> set (map ident xs)" "the a = the b"
    then have "a \<noteq> None" "b \<noteq> None" using assms(2) by auto
    with ab(3) show "a = b" by (auto intro: option.expand)
  qed
  ultimately have "card {h. \<exists>t\<in>set xs. ident t = Some h} = card (set (map ident xs))"
    by (simp add: card_image)
  also have "\<dots> = length (map ident xs)" using assms(1) by (rule distinct_card)
  finally show ?thesis by simp
qed

subsection \<open>Removal of the marked candidates\<close>

text \<open>
  C5. Let the pool of the lane be the priority mempool keyed by content hash, and let a call
  of \<^verbatim>\<open>PrepareLane\<close> succeed. A pool entry \<open>t\<close> that the scan reaches (no entry before it is
  an unselected, fully valid candidate within the budget), that is a candidate, and that
  fails validation, has a malformed or invalid bundle, or is longer than the budget, is gone
  after the call: it is not in the pool, no pool entry has its identity, and \<^verbatim>\<open>Contains\<close>
  returns false. An entry that is only too long is among these.
\<close>

theorem PrepareLane_removes_marked:
  assumes impl: "index_impl l = PriorityMempool (contentHash (txEncoder l) (hashHex l)) priority maxTx"
    and perm: "\<forall>xs. set (rangeOrder xs) = set xs"
    and run: "PrepareLane rangeOrder l ctx maxTxBytes selectedTxs = (Inr sel, store', l')"
    and pos: "Select l = pre @ t # post"
    and scanned: "\<forall>u\<in>set pre. \<not> (candidate l selectedTxs u \<and> fullyValid l ctx u \<and>
                                     fitsBudget l maxTxBytes u)"
    and cand: "candidate l selectedTxs t"
    and rejected: "\<not> fullyValid l ctx t \<or> \<not> fitsBudget l maxTxBytes t"
  shows "t \<notin> set (Select l') \<and> Contains l' t = (False, None) \<and>
         contentHash (txEncoder l) (hashHex l) t \<notin>
           contentHash (txEncoder l) (hashHex l) ` set (Select l')"
proof -
  let ?ident = "contentHash (txEncoder l) (hashHex l)"
  let ?step = "selectBidTx l ctx maxTxBytes selectedTxs"
  from PrepareLane_pm_success[OF impl perm run] obtain rm where
    loop: "selectBidTxLoop l ctx maxTxBytes selectedTxs (Select l) [] = Inr (sel, store', rm)"
    and sl: "Select l' = filter (\<lambda>t. ?ident t \<notin> ?ident ` set rm) (Select l)"
    and tix: "txIndex l' = txIndex l - {h. \<exists>t\<in>set rm. getTxHashStr l t = Inr h}"
    and hs: "getTxHashStr l' = getTxHashStr l"
    and impl': "index_impl l' = index_impl l" by blast
  have mark: "?step t = MarkRemove" using cand rejected step_MarkRemove_iff[of l ctx maxTxBytes selectedTxs t]
    by blast
  have "\<forall>u\<in>set pre. \<forall>sel cs. ?step u \<noteq> SelectBid sel cs"
    using scanned step_SelectBid_iff[of l ctx maxTxBytes selectedTxs] by blast
  with pos mark have t: "t \<in> set rm" using loop_marked_iff[OF loop, of t] by blast
  from cand obtain h where h: "getTxHashStr l t = Inr h"
    by (auto simp: candidate_def split: sum.splits)
  have 1: "?ident t \<notin> ?ident ` set (Select l')"
  proof
    assume "?ident t \<in> ?ident ` set (Select l')"
    then obtain x where x: "x \<in> set (Select l')" "?ident x = ?ident t" by auto
    from x(1) have "?ident x \<notin> ?ident ` set rm" using sl by simp
    moreover have "?ident x \<in> ?ident ` set rm" using t x(2) by (metis imageI)
    ultimately show False ..
  qed
  then have 2: "t \<notin> set (Select l')" by blast
  have "h \<notin> txIndex l'" using tix t h by blast
  then have 3: "Contains l' t = (False, None)" using h hs by (simp add: Contains_def)
  from 1 2 3 show ?thesis by blast
qed



text \<open>
  The witness is the second scenario of the specification: with a budget of 40 bytes \<open>bidA\<close>
  (50 bytes) is too long and is removed, and \<open>bidB\<close> and its bundle are selected.
\<close>

lemma laneOf_impl:
  "index_impl (laneOf txs) =
     PriorityMempool (contentHash (txEncoder (laneOf txs)) (hashHex (laneOf txs))) toyPriority 10"
  unfolding laneOf_def laneWith_def toyLane_def by (rule reachable_lane)

lemma PrepareLane_BA_40:
  "PrepareLane id (laneOf [bidB, bidA]) ((), []) 40 [] =
     (Inr [replicate 30 2, replicate 5 13], [2, 13],
      toyLane\<lparr>index := [(50, bidB)], txIndex := {''hB''}\<rparr>)"
  by (simp add: lane_defs toy_defs Let_def insert_Diff_if)

theorem PrepareLane_removes_marked_witness:
  "(\<forall>xs::toy_tx list. set (id xs) = set xs) \<and>
   Select (laneOf [bidB, bidA]) = [] @ bidA # [bidB] \<and>
   candidate (laneOf [bidB, bidA]) [] bidA \<and>
   \<not> fitsBudget (laneOf [bidB, bidA]) 40 bidA \<and>
   bidA \<notin> set (Select (toyLane\<lparr>index := [(50, bidB)], txIndex := {''hB''}\<rparr>)) \<and>
   Contains (toyLane\<lparr>index := [(50, bidB)], txIndex := {''hB''}\<rparr>) bidA = (False, None)"
proof -
  let ?L = "laneOf [bidB, bidA]"
  have p: "\<forall>xs::toy_tx list. set (id xs) = set xs" by simp
  have pos: "Select ?L = [] @ bidA # [bidB]" by (simp add: lane_defs toy_defs)
  have sc: "\<forall>u\<in>set []. \<not> (candidate ?L [] u \<and> fullyValid ?L ((), []) u \<and> fitsBudget ?L 40 u)"
    by simp
  have cand: "candidate ?L [] bidA" by (simp add: candidate_def lane_defs toy_defs)
  have big: "\<not> fitsBudget ?L 40 bidA" by (simp add: fitsBudget_def lane_defs toy_defs)
  then have rej: "\<not> fullyValid ?L ((), []) bidA \<or> \<not> fitsBudget ?L 40 bidA" ..
  from PrepareLane_removes_marked[OF laneOf_impl p PrepareLane_BA_40 pos sc cand rej]
  show ?thesis using p pos cand big by simp
qed

subsection \<open>What stays in the lane\<close>


lemma distinct_map_eq:
  "distinct (map f xs) \<Longrightarrow> x \<in> set xs \<Longrightarrow> y \<in> set xs \<Longrightarrow> f x = f y \<Longrightarrow> x = y"
  by (auto simp: distinct_map dest: inj_onD)


text \<open>
  C10. Let the pool of the lane be the priority mempool keyed by content hash, let the lane
  satisfy its invariant, and let a call of \<^verbatim>\<open>PrepareLane\<close> succeed. Every pool entry that is
  skipped because its hash is among the transactions selected before, and every entry that is
  a fully valid candidate within the budget, is in the pool after the call and \<^verbatim>\<open>Contains\<close>
  returns true for it. When the call selects a bid, the selected entry is one of them: it
  stays in the pool and in the membership index.
\<close>

theorem PrepareLane_keeps_unmarked:
  assumes impl: "index_impl l = PriorityMempool (contentHash (txEncoder l) (hashHex l)) priority maxTx"
    and inv: "laneInvariant (contentHash (txEncoder l) (hashHex l)) l"
    and perm: "\<forall>xs. set (rangeOrder xs) = set xs"
    and run: "PrepareLane rangeOrder l ctx maxTxBytes selectedTxs = (Inr sel, store', l')"
  shows "(\<forall>t\<in>set (Select l).
            \<not> candidate l selectedTxs t \<or> (fullyValid l ctx t \<and> fitsBudget l maxTxBytes t) \<longrightarrow>
            t \<in> set (Select l') \<and> Contains l' t = (True, None))
       \<and> (sel \<noteq> [] \<longrightarrow>
            (\<exists>w\<in>set (Select l'). selectBidTx l ctx maxTxBytes selectedTxs w = SelectBid sel store' \<and>
               Contains l' w = (True, None)))"
proof -
  let ?ident = "contentHash (txEncoder l) (hashHex l)"
  let ?step = "selectBidTx l ctx maxTxBytes selectedTxs"
  from PrepareLane_pm_success[OF impl perm run] obtain rm where
    loop: "selectBidTxLoop l ctx maxTxBytes selectedTxs (Select l) [] = Inr (sel, store', rm)"
    and sl: "Select l' = filter (\<lambda>t. ?ident t \<notin> ?ident ` set rm) (Select l)"
    and tix: "txIndex l' = txIndex l - {h. \<exists>t\<in>set rm. getTxHashStr l t = Inr h}"
    and hs: "getTxHashStr l' = getTxHashStr l"
    and impl': "index_impl l' = index_impl l" by blast
  from inv have dist: "distinct (map ?ident (Select l))"
    and some: "\<forall>t\<in>set (Select l). ?ident t \<noteq> None"
    and ix: "txIndex l = {h. \<exists>t\<in>set (Select l). ?ident t = Some h}"
    unfolding laneInvariant_Select[OF impl] by blast+
  have keep: "t \<in> set (Select l') \<and> Contains l' t = (True, None)"
    if tin: "t \<in> set (Select l)" and nm: "?step t \<noteq> MarkRemove" for t
  proof -
    from tin some obtain h where h: "?ident t = Some h" by auto
    then have hs_t: "getTxHashStr l t = Inr h" by (simp add: getTxHashStr_contentHash)
    have other: "?ident m \<noteq> ?ident t" if m: "m \<in> set rm" for m
    proof
      assume eq: "?ident m = ?ident t"
      from loop_marked[OF loop] m have mm: "m \<in> set (Select l)" "?step m = MarkRemove" by auto
      from distinct_map_eq[OF dist mm(1) tin eq] have "m = t" .
      with mm(2) nm show False by simp
    qed
    then have "?ident t \<notin> ?ident ` set rm" by (metis imageE)
    with tin sl have 1: "t \<in> set (Select l')" by simp
    have "h \<in> txIndex l" using ix tin h by blast
    moreover have "h \<notin> {h. \<exists>t\<in>set rm. getTxHashStr l t = Inr h}"
    proof
      assume "h \<in> {h. \<exists>t\<in>set rm. getTxHashStr l t = Inr h}"
      then obtain m where m: "m \<in> set rm" "getTxHashStr l m = Inr h" by blast
      then have "?ident m = ?ident t" using h by (simp add: getTxHashStr_contentHash)
      with other[OF m(1)] show False ..
    qed
    ultimately have "h \<in> txIndex l'" using tix by simp
    then have "Contains l' t = (True, None)" using hs hs_t by (simp add: Contains_def)
    with 1 show ?thesis ..
  qed
  have A: "\<forall>t\<in>set (Select l).
            \<not> candidate l selectedTxs t \<or> (fullyValid l ctx t \<and> fitsBudget l maxTxBytes t) \<longrightarrow>
            t \<in> set (Select l') \<and> Contains l' t = (True, None)"
  proof (intro ballI impI)
    fix t assume t: "t \<in> set (Select l)"
      and c: "\<not> candidate l selectedTxs t \<or> (fullyValid l ctx t \<and> fitsBudget l maxTxBytes t)"
    from c have "?step t \<noteq> MarkRemove"
      using step_MarkRemove_iff[of l ctx maxTxBytes selectedTxs t] by blast
    with t show "t \<in> set (Select l') \<and> Contains l' t = (True, None)" by (rule keep)
  qed
  have B: "sel \<noteq> [] \<longrightarrow>
            (\<exists>w\<in>set (Select l'). ?step w = SelectBid sel store' \<and> Contains l' w = (True, None))"
  proof
    assume ne: "sel \<noteq> []"
    show "\<exists>w\<in>set (Select l'). ?step w = SelectBid sel store' \<and> Contains l' w = (True, None)"
    proof (cases rule: loop_cases[of "Select l" l ctx maxTxBytes selectedTxs])
      case none
      from none(2)[of "[]"] loop ne show ?thesis by simp
    next
      case (err pre t post e)
      from err(4)[of "[]"] loop show ?thesis by simp
    next
      case (win pre w post sel2 cs)
      from win(4)[of "[]"] loop have eq: "sel2 = sel" "cs = store'" by simp_all
      have w: "w \<in> set (Select l)" using win(1) by simp
      have "?step w \<noteq> MarkRemove" using win(3) by simp
      from keep[OF w this] win(3) eq show ?thesis by blast
    qed
  qed
  from A B show ?thesis ..
qed


text \<open>
  The witness: \<open>bidA\<close> was selected by an earlier lane and is skipped, \<open>bidB\<close> wins; both are
  in the lane after the call.
\<close>

lemma laneOf_invariant:
  "laneInvariant (contentHash (txEncoder (laneOf txs)) (hashHex (laneOf txs))) (laneOf txs)"
  unfolding laneOf_def laneWith_def toyLane_def by (rule reachable_lane)

lemma laneOf_BA:
  "laneOf [bidB, bidA] =
     toyLane\<lparr>index := [(100, bidA), (50, bidB)], txIndex := {''hA'', ''hB''}\<rparr>"
  by (simp add: lane_defs toy_defs insert_commute)

lemma PrepareLane_BA_skip:
  "PrepareLane id (laneOf [bidB, bidA]) ((), []) 200 [(''hA'', replicate 50 1)] =
     (Inr [replicate 30 2, replicate 5 13], [2, 13], laneOf [bidB, bidA])"
  unfolding laneOf_BA by (simp add: lane_defs toy_defs Let_def)

theorem PrepareLane_keeps_unmarked_witness:
  "(\<forall>xs::toy_tx list. set (id xs) = set xs) \<and>
   PrepareLane id (laneOf [bidB, bidA]) ((), []) 200 [(''hA'', replicate 50 1)] =
     (Inr [replicate 30 2, replicate 5 13], [2, 13], laneOf [bidB, bidA]) \<and>
   bidA \<in> set (Select (laneOf [bidB, bidA])) \<and>
   \<not> candidate (laneOf [bidB, bidA]) [(''hA'', replicate 50 1)] bidA \<and>
   Contains (laneOf [bidB, bidA]) bidA = (True, None) \<and>
   (\<exists>w\<in>set (Select (laneOf [bidB, bidA])).
      selectBidTx (laneOf [bidB, bidA]) ((), []) 200 [(''hA'', replicate 50 1)] w =
        SelectBid [replicate 30 2, replicate 5 13] [2, 13] \<and>
      Contains (laneOf [bidB, bidA]) w = (True, None))"
proof -
  let ?L = "laneOf [bidB, bidA]"
  let ?sT = "[(''hA'', replicate 50 (1::8 word))]"
  have p: "\<forall>xs::toy_tx list. set (id xs) = set xs" by simp
  note t = PrepareLane_keeps_unmarked[OF laneOf_impl laneOf_invariant p PrepareLane_BA_skip]
  have a: "bidA \<in> set (Select ?L)" unfolding laneOf_BA by (simp add: lane_defs toy_defs)
  have c: "\<not> candidate ?L ?sT bidA" unfolding laneOf_BA by (simp add: candidate_def lane_defs toy_defs)
  from t a c have 1: "Contains ?L bidA = (True, None)" by blast
  have ne: "[replicate 30 2, replicate 5 13 :: bytes] \<noteq> []" by simp
  from t ne have 2: "\<exists>w\<in>set (Select ?L).
      selectBidTx ?L ((), []) 200 ?sT w = SelectBid [replicate 30 2, replicate 5 13] [2, 13] \<and>
      Contains ?L w = (True, None)" by blast
  from p PrepareLane_BA_skip a c 1 2 show ?thesis by - (intro conjI; assumption)
qed

subsection \<open>The selected bid\<close>

text \<open>
  C1, at a failing input. The pool holds \<open>bidR\<close> (bid 300), which the hook rejects, and
  \<open>bidN\<close> (bid 200), whose bundle holds the bid \<open>bidB\<close> and which \<^verbatim>\<open>VerifyTx\<close> rejects for
  that; the budget is 200 bytes and nothing was selected before. No pool entry passes full
  validation, and \<^verbatim>\<open>PrepareLane\<close> marks \<open>bidR\<close> and returns \<open>bidN\<close> with the nested bid, in
  whichever order the pool yields the two. With \<open>bidA\<close> (bid 100, 60 bytes with its bundle)
  behind them, which \<^verbatim>\<open>VerifyTx\<close> accepts, the call still returns \<open>bidN\<close>.
\<close>

theorem PrepareLane_selects_invalid_bid:
  "Select (laneWith [(2, bidR), (1, bidN)]) = [bidR, bidN] \<and>
   fst (VerifyTx (laneWith [(2, bidR), (1, bidN)]) ((), []) bidN) =
     Returns (Some (Errorf ''invalid bid tx; bundled tx cannot be a bid tx'')) \<and>
   PrepareLane id (laneWith [(2, bidR), (1, bidN)]) ((), []) 200 [] =
     (Inr [replicate 10 4, replicate 30 2], [4, 2],
      toyLane\<lparr>index := [(1, bidN)], txIndex := {''hN''}\<rparr>) \<and>
   Select (laneWith [(1, bidR), (2, bidN)]) = [bidN, bidR] \<and>
   fst (PrepareLane id (laneWith [(1, bidR), (2, bidN)]) ((), []) 200 []) =
     Inr [replicate 10 4, replicate 30 2] \<and>
   Select (laneWith [(3, bidR), (2, bidN), (1, bidA)]) = [bidR, bidN, bidA] \<and>
   fst (VerifyTx (laneWith [(3, bidR), (2, bidN), (1, bidA)]) ((), []) bidA) = Returns None \<and>
   bidAmount toyFactory bidA = 100 \<and>
   (\<Sum>bz \<leftarrow> [replicate 50 1, replicate 5 11, replicate 5 12 :: bytes]. int (length bz)) = 60 \<and>
   fst (PrepareLane id (laneWith [(3, bidR), (2, bidN), (1, bidA)]) ((), []) 200 []) =
     Inr [replicate 10 4, replicate 30 2]"
  by (simp add: lane_defs toy_defs Let_def insert_Diff_if)

text \<open>
  The order in which the pool yields its entries is the order of the priorities that the
  configured default priority gave when they were inserted; the bids that the factory reports
  are no part of it. Here \<open>bidB\<close> (bid 50) was inserted with the higher priority and is
  selected, although \<open>bidA\<close> (bid 100) is valid and within the budget.
\<close>

lemma PrepareLane_follows_pool_order:
  "Select (laneWith [(2, bidB), (1, bidA)]) = [bidB, bidA] \<and>
   fst (VerifyTx (laneWith [(2, bidB), (1, bidA)]) ((), []) bidA) = Returns None \<and>
   bidAmount toyFactory bidB = 50 \<and> bidAmount toyFactory bidA = 100 \<and>
   fst (PrepareLane id (laneWith [(2, bidB), (1, bidA)]) ((), []) 200 []) =
     Inr [replicate 30 2, replicate 5 13]"
  by (simp add: lane_defs toy_defs Let_def)

subsection \<open>The byte budget\<close>

text \<open>
  C2, at a failing input. The pool holds \<open>bidB\<close> (30 bytes, one bundled transaction of 5
  bytes), the budget is 32 bytes and 20 bytes were selected before the call, so 12 bytes
  remain. \<^verbatim>\<open>PrepareLane\<close> returns \<open>bidB\<close> and its bundle, 35 bytes: the size test compares the
  encoded bid alone with the whole budget.
\<close>

theorem PrepareLane_budget_overrun:
  "fst (PrepareLane id (laneOf [bidB]) ((), []) 32 [(''hx'', replicate 20 0)]) =
     Inr [replicate 30 2, replicate 5 13] \<and>
   (\<Sum>bz \<leftarrow> [replicate 30 2, replicate 5 13 :: bytes]. int (length bz)) = 35 \<and>
   32 - (\<Sum>(h, tx) \<leftarrow> [(''hx'', replicate 20 (0::8 word))]. int (length tx)) = 12"
  by (simp add: lane_defs toy_defs Let_def)

subsection \<open>Bids inside bundles\<close>

text \<open>
  \<^verbatim>\<open>VerifyTx\<close> rejects every bid whose bundle holds a payload that wraps to a transaction
  matching the lane.
\<close>


lemma VerifyTx_bundle_nested:
  assumes "raw \<in> set raws" and "WrapBundleTransaction (af l) raw = Inr tx"
    and "Match l tx"
  shows "fst (VerifyTx_bundle l ctx raws) \<noteq> None"
  using assms(1)
proof (induction raws arbitrary: ctx)
  case Nil
  then show ?case by simp
next
  case (Cons a raws)
  show ?case
  proof (cases "a = raw")
    case True
    with assms(2,3) show ?thesis
      by (auto simp: Match_def split: prod.splits option.splits)
  next
    case False
    with Cons.prems have "raw \<in> set raws" by simp
    from Cons.IH[OF this] show ?thesis
      by (auto split: sum.splits prod.splits option.splits)
  qed
qed

lemma VerifyTx_rejects_nested_bid:
  assumes "GetAuctionBidInfo (af l) bidTx = (Some info, None)"
    and "raw \<in> set (Transactions info)" and "WrapBundleTransaction (af l) raw = Inr tx"
    and "Match l tx"
  shows "\<exists>e. fst (VerifyTx l ctx bidTx) = Returns (Some e)"
proof (cases "verifyTx l ctx bidTx")
  case (Pair ctx' r)
  show ?thesis
  proof (cases r)
    case None
    with Pair assms(1) VerifyTx_bundle_nested[OF assms(2,3,4), of ctx'] show ?thesis
      by (auto simp: VerifyTx_def split: prod.splits)
  next
    case (Some e)
    with Pair assms(1) show ?thesis by (simp add: VerifyTx_def)
  qed
qed


text \<open>
  C3, at a failing input. The bundle of \<open>bidN\<close> holds a payload that wraps to the bid
  \<open>bidB\<close>. \<^verbatim>\<open>VerifyTx\<close> rejects \<open>bidN\<close>; \<^verbatim>\<open>PrepareLane\<close>, whose bundle loop does not ask the
  factory about the wrapped transaction, selects \<open>bidN\<close> with the nested bid and leaves it
  in the pool and in the membership index.
\<close>

theorem PrepareLane_selects_nested_bid:
  "GetAuctionBidInfo (af (laneOf [bidN])) bidN =
     (Some \<lparr>Bidder = ''bidder'', Bid = 200, Transactions = [[2]], Timeout = 0\<rparr>, None) \<and>
   WrapBundleTransaction (af (laneOf [bidN])) [2] = Inr bidB \<and>
   Match (laneOf [bidN]) bidB \<and>
   fst (VerifyTx (laneOf [bidN]) ((), []) bidN) =
     Returns (Some (Errorf ''invalid bid tx; bundled tx cannot be a bid tx'')) \<and>
   PrepareLane id (laneOf [bidN]) ((), []) 200 [] =
     (Inr [replicate 10 4, replicate 30 2], [4, 2], laneOf [bidN]) \<and>
   Select (laneOf [bidN]) = [bidN] \<and>
   Contains (laneOf [bidN]) bidN = (True, None)"
  by (simp add: lane_defs toy_defs Let_def)


subsection \<open>The membership index\<close>

text \<open>
  C7. Take a lane made by \<^verbatim>\<open>NewTOBLane\<close> over the priority mempool, with any default
  priority, and any sequence of \<^verbatim>\<open>Insert\<close> and \<^verbatim>\<open>Remove\<close> calls. In the lane reached, the membership index holds exactly
  the hashes of the pooled transactions, its size is \<^verbatim>\<open>CountTx\<close>, \<^verbatim>\<open>Contains\<close> returns true
  after an \<^verbatim>\<open>Insert\<close> that returned no error, and \<^verbatim>\<open>Contains\<close> returns false after a
  \<^verbatim>\<open>Remove\<close>.
\<close>

theorem index_equals_pool:
  assumes l: "l = runOps (NewTOBLane hh prio dec enc maxTx f ante) ops"
  shows "txIndex l = {h. \<exists>t\<in>set (Select l). getTxHashStr l t = Inr h} \<and>
         card (txIndex l) = CountTx l \<and>
         (\<forall>g T l'. Insert l g T = (None, l') \<longrightarrow> Contains l' T = (True, None)) \<and>
         (\<forall>T. fst (Contains (snd (Remove l T)) T) = False)"
proof -
  let ?ident = "contentHash (txEncoder l) (hashHex l)"
  have impl: "index_impl l = PriorityMempool ?ident prio maxTx"
    and inv: "laneInvariant ?ident l"
    unfolding l by (rule reachable_lane)+
  from inv have dist: "distinct (map ?ident (Select l))"
    and some: "\<forall>t\<in>set (Select l). ?ident t \<noteq> None"
    and ix: "txIndex l = {h. \<exists>t\<in>set (Select l). ?ident t = Some h}"
    unfolding laneInvariant_Select[OF impl] by blast+
  have cnt: "CountTx l = length (Select l)" using impl by (rule pm_CountTx)
  have 1: "txIndex l = {h. \<exists>t\<in>set (Select l). getTxHashStr l t = Inr h}"
    using ix by (simp add: getTxHashStr_contentHash)
  have 2: "card (txIndex l) = CountTx l"
  proof -
    have "card {h. \<exists>t\<in>set (Select l). ?ident t = Some h} = length (Select l)"
      using dist some by (rule card_identities)
    with ix cnt show ?thesis by simp
  qed
  have 3: "\<forall>g T l'. Insert l g T = (None, l') \<longrightarrow> Contains l' T = (True, None)"
    by (auto dest: Insert_then_Contains)
  have 4: "\<forall>T. fst (Contains (snd (Remove l T)) T) = False"
    using pm_Remove_then_Contains[OF impl] by simp
  from 1 2 3 4 show ?thesis by - (intro conjI; assumption)
qed

theorem index_equals_pool_witness:
  "txIndex (laneOf [bidB, bidA]) = {''hA'', ''hB''} \<and>
   card (txIndex (laneOf [bidB, bidA])) = CountTx (laneOf [bidB, bidA]) \<and>
   CountTx (laneOf [bidB, bidA]) = 2 \<and>
   fst (Insert (laneOf [bidB, bidA]) 70 bidC) = None \<and>
   Contains (snd (Insert (laneOf [bidB, bidA]) 70 bidC)) bidC = (True, None) \<and>
   fst (Contains (snd (Remove (laneOf [bidB, bidA]) bidA)) bidA) = False"
proof -
  let ?L = "laneOf [bidB, bidA]"
  have l: "?L = runOps (NewTOBLane toyHash toyPriority toyDecoder toyEncoder 10 toyFactory
                  (Some toyAnte)) [DoInsert 50 bidB, DoInsert 100 bidA]"
    by (simp add: laneOf_def laneWith_def toyLane_def bidAmount_def toyFactory_def bidA_def bidB_def)
  note t = index_equals_pool[OF l]
  have ix: "txIndex ?L = {''hA'', ''hB''}" by (simp add: lane_defs toy_defs insert_commute)
  have cnt: "CountTx ?L = 2" by (simp add: lane_defs toy_defs)
  have ins: "Insert ?L 70 bidC = (None, snd (Insert ?L 70 bidC))" by (simp add: lane_defs toy_defs)
  from t have c: "card (txIndex ?L) = CountTx ?L" by (rule conjunct1[OF conjunct2])
  from t ins have i: "Contains (snd (Insert ?L 70 bidC)) bidC = (True, None)" by blast
  from t have r: "fst (Contains (snd (Remove ?L bidA)) bidA) = False" by blast
  from ins have n: "fst (Insert ?L 70 bidC) = None" by (metis fst_conv)
  from ix c cnt n i r show ?thesis by - (intro conjI; assumption)
qed

text \<open>
  C8. In a lane reached from \<^verbatim>\<open>NewTOBLane\<close> by \<^verbatim>\<open>Insert\<close> and \<^verbatim>\<open>Remove\<close> calls, inserting a
  transaction that \<^verbatim>\<open>Contains\<close> reports as present returns an error that wraps the duplicate
  error, and the lane (pool and membership index) is the one before the call.
\<close>

theorem Insert_duplicate:
  assumes l: "l = runOps (NewTOBLane hh prio dec enc maxTx f ante) ops"
    and present: "Contains l T = (True, None)"
  shows "\<exists>e. Insert l g T = (Some e, l) \<and> errors_Is e DuplicateError"
proof -
  let ?ident = "contentHash (txEncoder l) (hashHex l)"
  have impl: "index_impl l = PriorityMempool ?ident prio maxTx"
    and inv: "laneInvariant ?ident l"
    unfolding l by (rule reachable_lane)+
  from present obtain h where h: "getTxHashStr l T = Inr h" "h \<in> txIndex l"
    by (auto simp: Contains_def split: sum.splits)
  from h(1) have iT: "?ident T = Some h" by (simp add: getTxHashStr_contentHash)
  from h(2) inv obtain y where "y \<in> set (index l)" "?ident (snd y) = Some h"
    by (auto simp: laneInvariant_def)
  with iT have "?ident T \<in> ?ident ` snd ` set (index l)" by (metis imageI)
  then have "mp_Insert (index_impl l) g T (index l) = (Some DuplicateError, index l)"
    using impl by (simp add: PriorityMempool_def pm_Insert_def)
  with h(1) have "Insert l g T =
      (Some (Wrapf ''failed to insert tx into auction index'' DuplicateError), l\<lparr>index := index l\<rparr>)"
    by (simp add: Insert_def)
  then have "Insert l g T = (Some (Wrapf ''failed to insert tx into auction index'' DuplicateError), l)"
    by simp
  moreover have "errors_Is (Wrapf ''failed to insert tx into auction index'' DuplicateError) DuplicateError"
    by simp
  ultimately show ?thesis by blast
qed

theorem Insert_duplicate_witness:
  "Contains (laneOf [bidB, bidA]) bidA = (True, None) \<and>
   Insert (laneOf [bidB, bidA]) 100 bidA =
     (Some (Wrapf ''failed to insert tx into auction index'' DuplicateError), laneOf [bidB, bidA])"
proof -
  let ?L = "laneOf [bidB, bidA]"
  have l: "?L = runOps (NewTOBLane toyHash toyPriority toyDecoder toyEncoder 10 toyFactory
                  (Some toyAnte)) [DoInsert 50 bidB, DoInsert 100 bidA]"
    by (simp add: laneOf_def laneWith_def toyLane_def bidAmount_def toyFactory_def bidA_def bidB_def)
  have c: "Contains ?L bidA = (True, None)" by (simp add: lane_defs toy_defs)
  from Insert_duplicate[OF l c, of 100] obtain e where e: "Insert ?L 100 bidA = (Some e, ?L)" by blast
  have "fst (Insert ?L 100 bidA) = Some (Wrapf ''failed to insert tx into auction index'' DuplicateError)"
    by (simp add: lane_defs toy_defs)
  with e c show ?thesis by simp
qed

subsection \<open>ProcessLane\<close>

text \<open>
  C9, as the code has it. \<^verbatim>\<open>ProcessLane\<close> is a stub: for every lane, context and sequence
  of transaction bytes it panics with "not implemented"; it decodes, verifies, consumes and
  delegates nothing.
\<close>

theorem ProcessLane_not_implemented:
  "ProcessLane l ctx txs = Panics ''not implemented''"
  by (simp add: ProcessLane_def)

text \<open>
  C9 as stated fails: the leading transaction below decodes to \<open>txX\<close>, which does not match
  the lane, and the call neither returns nor hands the sequence on.
\<close>

theorem ProcessLane_delegates_counterexample:
  "txDecoder toyLane (replicate 5 11) = Inr txX \<and> \<not> Match toyLane txX \<and>
   ProcessLane toyLane ((), []) [replicate 5 11] \<noteq> Returns None \<and>
   ProcessLane toyLane ((), []) [replicate 5 11] = Panics ''not implemented''"
  by (simp add: ProcessLane_def lane_defs toy_defs)

end
